theory Spec2Isabelle
  imports Main
begin

section \<open>Memory\<close>

text \<open>
  The source manages raw buffers: every constructor calls \<^verbatim>\<open>new N*[n]\<close> once for the
  outer array and once per row, and the destructor calls \<^verbatim>\<open>delete[]\<close> on each of them.
  Memory is therefore part of the model, and it is measured in bytes, because the source
  allocates every array, the rows too, as an array of \<^emph>\<open>pointers\<close> and then stores values
  of \<open>N\<close> in the rows: whether \<open>cols\<close> elements fit into \<open>cols\<close> pointers depends on
  \<^verbatim>\<open>sizeof(N)\<close> and \<^verbatim>\<open>sizeof(N*)\<close>. These two sizes are the \<open>layout\<close>, a parameter of
  every operation that touches memory.

  A block is the result of one \<^verbatim>\<open>new[]\<close>: a list with one cell per byte. The cell at
  offset \<open>k\<close> says which object has its first byte at \<open>k\<close>: a pointer (of
  \<open>sizeof_ptr\<close> bytes), an element (of \<open>sizeof_N\<close> bytes), or none (\<open>Indet\<close>: the byte
  is indeterminate or inside an object that starts earlier). Writing an object
  destroys every object it overlaps.

  An address is the position of its block in the list of all blocks ever allocated;
  \<open>None\<close> marks a block that has been released. Addresses are never reused, and
  allocation never runs out of memory (\<^verbatim>\<open>std::bad_alloc\<close> is not modelled).
  Every access the C++ standard leaves undefined is a branch returning an error.
\<close>

type_synonym addr = nat

datatype error =
    BadArrayNewLength   \<comment> \<open>\<^verbatim>\<open>new T[n]\<close> with \<open>n < 0\<close>\<close>
  | InvalidPointer      \<comment> \<open>access through a pointer to no live block\<close>
  | OutOfBounds         \<comment> \<open>an access that does not lie inside the block, or the vector\<close>
  | NotAPointer         \<comment> \<open>no pointer starts at the offset read as a pointer\<close>
  | NotAValue           \<comment> \<open>no element starts at the offset read as an element\<close>
  | InvalidFree         \<comment> \<open>\<^verbatim>\<open>delete[]\<close> of something that is not a live block\<close>
  | DanglingPointer     \<comment> \<open>read through a pointer to a local whose function has returned\<close>

record layout =
  sizeof_ptr :: nat   \<comment> \<open>\<^verbatim>\<open>sizeof(N*)\<close>\<close>
  sizeof_N :: nat     \<comment> \<open>\<^verbatim>\<open>sizeof(N)\<close>\<close>

text \<open>Both sizes are at least 1 in C++.\<close>

definition layout_ok :: "layout \<Rightarrow> bool" where
  "layout_ok L = (0 < sizeof_ptr L \<and> 0 < sizeof_N L)"

datatype 'n cell = Indet | Ptr addr | Val 'n

definition size_of :: "layout \<Rightarrow> 'n cell \<Rightarrow> nat" where
  "size_of L c = (case c of Indet \<Rightarrow> 0 | Ptr p \<Rightarrow> sizeof_ptr L | Val v \<Rightarrow> sizeof_N L)"

record 'n mem =
  heap :: "'n cell list option list"
  stack :: "int list list"   \<comment> \<open>the live local \<^verbatim>\<open>int\<close> arrays, innermost call last\<close>
  frees :: "addr list"       \<comment> \<open>the addresses passed to \<^verbatim>\<open>delete[]\<close> so far, in order\<close>

text \<open>\<^verbatim>\<open>new N*[n]\<close>: a fresh block of \<open>n\<close> pointers, that is \<open>n * sizeof_ptr\<close> bytes.\<close>

definition new_arr :: "layout \<Rightarrow> int \<Rightarrow> 'n mem \<Rightarrow> error + (addr \<times> 'n mem)" where
  "new_arr L n m =
     (if n < 0 then Inl BadArrayNewLength
      else Inr (length (heap m),
                m\<lparr>heap := heap m @ [Some (replicate (nat n * sizeof_ptr L) Indet)]\<rparr>))"

definition block_at :: "addr \<Rightarrow> 'n mem \<Rightarrow> error + 'n cell list" where
  "block_at a m =
     (if a < length (heap m)
      then (case heap m ! a of None \<Rightarrow> Inl InvalidPointer | Some b \<Rightarrow> Inr b)
      else Inl InvalidPointer)"

text \<open>
  Reading \<open>sz\<close> bytes at byte offset \<open>off\<close> of a block, and writing the object \<open>c\<close>
  there: the bytes must lie inside the block. \<open>put\<close> is the block after the write.
\<close>

definition load :: "addr \<Rightarrow> nat \<Rightarrow> nat \<Rightarrow> 'n mem \<Rightarrow> error + 'n cell" where
  "load a off sz m =
     (case block_at a m of
        Inl e \<Rightarrow> Inl e
      | Inr b \<Rightarrow> if off < length b \<and> off + sz \<le> length b then Inr (b ! off) else Inl OutOfBounds)"

definition put :: "layout \<Rightarrow> nat \<Rightarrow> 'n cell \<Rightarrow> 'n cell list \<Rightarrow> 'n cell list" where
  "put L off c b =
     map (\<lambda>k. if k = off then c
              else if k < off + size_of L c \<and> off < k + size_of L (b ! k) then Indet
              else b ! k)
         [0..<length b]"

definition store :: "layout \<Rightarrow> addr \<Rightarrow> nat \<Rightarrow> 'n cell \<Rightarrow> 'n mem \<Rightarrow> error + 'n mem" where
  "store L a off c m =
     (case block_at a m of
        Inl e \<Rightarrow> Inl e
      | Inr b \<Rightarrow>
          if off < length b \<and> off + size_of L c \<le> length b
          then Inr (m\<lparr>heap := (heap m)[a := Some (put L off c b)]\<rparr>)
          else Inl OutOfBounds)"

text \<open>
  \<^verbatim>\<open>p[i]\<close> for a pointer \<open>p\<close> to pointers (\<^verbatim>\<open>N**\<close>): the pointer at byte
  \<open>i * sizeof_ptr\<close>. \<^verbatim>\<open>r[j]\<close> for a pointer \<open>r\<close> to elements (\<^verbatim>\<open>N*\<close>): the element at
  byte \<open>j * sizeof_N\<close>.
\<close>

definition load_ptr :: "layout \<Rightarrow> addr \<Rightarrow> int \<Rightarrow> 'n mem \<Rightarrow> error + addr" where
  "load_ptr L a i m =
     (if i < 0 then Inl OutOfBounds
      else (case load a (nat i * sizeof_ptr L) (sizeof_ptr L) m of
              Inl e \<Rightarrow> Inl e
            | Inr c \<Rightarrow> (case c of Ptr p \<Rightarrow> Inr p | Indet \<Rightarrow> Inl NotAPointer | Val v \<Rightarrow> Inl NotAPointer)))"

definition load_val :: "layout \<Rightarrow> addr \<Rightarrow> int \<Rightarrow> 'n mem \<Rightarrow> error + 'n" where
  "load_val L a j m =
     (if j < 0 then Inl OutOfBounds
      else (case load a (nat j * sizeof_N L) (sizeof_N L) m of
              Inl e \<Rightarrow> Inl e
            | Inr c \<Rightarrow> (case c of Val v \<Rightarrow> Inr v | Indet \<Rightarrow> Inl NotAValue | Ptr p \<Rightarrow> Inl NotAValue)))"

definition store_ptr :: "layout \<Rightarrow> addr \<Rightarrow> int \<Rightarrow> addr \<Rightarrow> 'n mem \<Rightarrow> error + 'n mem" where
  "store_ptr L a i p m =
     (if i < 0 then Inl OutOfBounds else store L a (nat i * sizeof_ptr L) (Ptr p) m)"

definition store_val :: "layout \<Rightarrow> addr \<Rightarrow> int \<Rightarrow> 'n \<Rightarrow> 'n mem \<Rightarrow> error + 'n mem" where
  "store_val L a j v m =
     (if j < 0 then Inl OutOfBounds else store L a (nat j * sizeof_N L) (Val v) m)"

text \<open>\<^verbatim>\<open>p[i][j]\<close> read as an element, and \<^verbatim>\<open>p[i][j] = v\<close>, for \<open>p\<close> of type \<^verbatim>\<open>N**\<close>.\<close>

definition index2 :: "layout \<Rightarrow> addr \<Rightarrow> int \<Rightarrow> int \<Rightarrow> 'n mem \<Rightarrow> error + 'n" where
  "index2 L p i j m = (case load_ptr L p i m of Inl e \<Rightarrow> Inl e | Inr r \<Rightarrow> load_val L r j m)"

definition assign2 :: "layout \<Rightarrow> addr \<Rightarrow> int \<Rightarrow> int \<Rightarrow> 'n \<Rightarrow> 'n mem \<Rightarrow> error + 'n mem" where
  "assign2 L p i j v m =
     (case load_ptr L p i m of Inl e \<Rightarrow> Inl e | Inr r \<Rightarrow> store_val L r j v m)"

text \<open>\<^verbatim>\<open>delete[] p\<close>: the block must be live; it is released and the call is logged.\<close>

definition delete_arr :: "addr \<Rightarrow> 'n mem \<Rightarrow> error + 'n mem" where
  "delete_arr a m =
     (case block_at a m of
        Inl e \<Rightarrow> Inl InvalidFree
      | Inr b \<Rightarrow> Inr (m\<lparr>heap := (heap m)[a := None], frees := frees m @ [a]\<rparr>))"

text \<open>\<^verbatim>\<open>content[i][j]\<close> on a \<^verbatim>\<open>std::vector<std::vector<N>>\<close>: \<^verbatim>\<open>operator[]\<close> is unchecked.\<close>

definition vec_at :: "'n list list \<Rightarrow> int \<Rightarrow> int \<Rightarrow> error + 'n" where
  "vec_at content i j =
     (if 0 \<le> i \<and> i < int (length content)
      then (if 0 \<le> j \<and> j < int (length (content ! nat i))
            then Inr (content ! nat i ! nat j) else Inl OutOfBounds)
      else Inl OutOfBounds)"

section \<open>The class\<close>

text \<open>
  Modelled from the spec: the header \<^verbatim>\<open>Tensor.h\<close>, which declares the members, is
  not among the sources. The members are the two dimensions \<open>rows\<close> and \<open>cols\<close>
  (\<^verbatim>\<open>int\<close>, as the constructors' parameters that initialise them) and the
  pointer \<open>t\<close> to the storage, "indexed \<^verbatim>\<open>[row][col]\<close>, storing values of type N":
  \<open>t\<close> points to pointers, \<^verbatim>\<open>t[i]\<close> points to elements.
  The \<^verbatim>\<open>int\<close>s are mathematical integers: the code only compares them and counts
  a loop variable up to one of them, so no operation can overflow.
\<close>

record tensor =
  rows :: int
  cols :: int
  t :: addr

text \<open>
  The three constructors have one body, up to the right-hand side of the assignment to
  \<^verbatim>\<open>t[i][j]\<close>, which is the parameter \<open>rhs\<close> here:

  \<^verbatim>\<open>for (int j = 0; j < y; ++j) { t[i][j] = rhs; }\<close>
\<close>

function fill_cols ::
  "layout \<Rightarrow> (int \<Rightarrow> int \<Rightarrow> 'n mem \<Rightarrow> error + 'n) \<Rightarrow> tensor \<Rightarrow> int \<Rightarrow> int \<Rightarrow> int \<Rightarrow> 'n mem
     \<Rightarrow> error + 'n mem"
where
  "fill_cols L rhs T i j y m =
     (if j < y
      then (case rhs i j m of
              Inl e \<Rightarrow> Inl e
            | Inr v \<Rightarrow>
                (case assign2 L (t T) i j v m of
                   Inl e \<Rightarrow> Inl e
                 | Inr m' \<Rightarrow> fill_cols L rhs T i (j + 1) y m'))
      else Inr m)"
  by pat_completeness auto
termination
  by (relation "measure (\<lambda>(L, rhs, T, i, j, y, m). nat (y - j))") auto

text \<open>
  \<^verbatim>\<open>for (int i = 0; i < x; ++i) { t[i] = new N*[cols]; for (...) {...} }\<close>

  The row is allocated as \<open>cols\<close> pointers.
\<close>

function fill_rows ::
  "layout \<Rightarrow> (int \<Rightarrow> int \<Rightarrow> 'n mem \<Rightarrow> error + 'n) \<Rightarrow> tensor \<Rightarrow> int \<Rightarrow> int \<Rightarrow> int \<Rightarrow> 'n mem
     \<Rightarrow> error + 'n mem"
where
  "fill_rows L rhs T i x y m =
     (if i < x
      then (case new_arr L (cols T) m of
              Inl e \<Rightarrow> Inl e
            | Inr (p, m1) \<Rightarrow>
                (case store_ptr L (t T) i p m1 of
                   Inl e \<Rightarrow> Inl e
                 | Inr m2 \<Rightarrow>
                     (case fill_cols L rhs T i 0 y m2 of
                        Inl e \<Rightarrow> Inl e
                      | Inr m3 \<Rightarrow> fill_rows L rhs T (i + 1) x y m3)))
      else Inr m)"
  by pat_completeness auto
termination
  by (relation "measure (\<lambda>(L, rhs, T, i, x, y, m). nat (x - i))") auto

text \<open>
  \<^verbatim>\<open>Tensor(int x, int y, ...) : rows(x), cols(y) { t = new N*[rows]; for ... }\<close>
\<close>

definition construct ::
  "layout \<Rightarrow> (int \<Rightarrow> int \<Rightarrow> 'n mem \<Rightarrow> error + 'n) \<Rightarrow> int \<Rightarrow> int \<Rightarrow> 'n mem
     \<Rightarrow> error + (tensor \<times> 'n mem)"
where
  "construct L rhs x y m =
     (case new_arr L x m of
        Inl e \<Rightarrow> Inl e
      | Inr (p, m1) \<Rightarrow>
          (let T = \<lparr>rows = x, cols = y, t = p\<rparr> in
           case fill_rows L rhs T 0 x y m1 of
             Inl e \<Rightarrow> Inl e
           | Inr m2 \<Rightarrow> Inr (T, m2)))"

text \<open>Constructor for the empty Tensor: \<^verbatim>\<open>t[i][j] = 0\<close>.\<close>

definition Tensor_empty ::
  "layout \<Rightarrow> int \<Rightarrow> int \<Rightarrow> ('n::zero) mem \<Rightarrow> error + (tensor \<times> 'n mem)" where
  "Tensor_empty L x y m = construct L (\<lambda>i j m'. Inr 0) x y m"

text \<open>Constructor using row pointers: \<^verbatim>\<open>t[i][j] = content[i][j]\<close>, \<^verbatim>\<open>N** content\<close>.\<close>

definition Tensor_ptrs ::
  "layout \<Rightarrow> int \<Rightarrow> int \<Rightarrow> addr \<Rightarrow> 'n mem \<Rightarrow> error + (tensor \<times> 'n mem)" where
  "Tensor_ptrs L x y content m = construct L (\<lambda>i j m'. index2 L content i j m') x y m"

text \<open>Constructor using a vector, passed by value: \<^verbatim>\<open>t[i][j] = content[i][j]\<close>.\<close>

definition Tensor_vector ::
  "layout \<Rightarrow> int \<Rightarrow> int \<Rightarrow> 'n list list \<Rightarrow> 'n mem \<Rightarrow> error + (tensor \<times> 'n mem)" where
  "Tensor_vector L x y content m = construct L (\<lambda>i j m'. vec_at content i j) x y m"

text \<open>
  The destructor: \<^verbatim>\<open>for (int i = 0; i < rows; ++i) delete[] t[i]; delete[] t;\<close>
\<close>

function delete_rows :: "layout \<Rightarrow> tensor \<Rightarrow> int \<Rightarrow> 'n mem \<Rightarrow> error + 'n mem" where
  "delete_rows L T i m =
     (if i < rows T
      then (case load_ptr L (t T) i m of
              Inl e \<Rightarrow> Inl e
            | Inr p \<Rightarrow>
                (case delete_arr p m of
                   Inl e \<Rightarrow> Inl e
                 | Inr m' \<Rightarrow> delete_rows L T (i + 1) m'))
      else Inr m)"
  by pat_completeness auto
termination
  by (relation "measure (\<lambda>(L, T, i, m). nat (rows T - i))") auto

definition Tensor_dtor :: "layout \<Rightarrow> tensor \<Rightarrow> 'n mem \<Rightarrow> error + 'n mem" where
  "Tensor_dtor L T m =
     (case delete_rows L T 0 m of Inl e \<Rightarrow> Inl e | Inr m' \<Rightarrow> delete_arr (t T) m')"

text \<open>
  \<^verbatim>\<open>int* size () { int s[2] = {rows, cols}; return s; }\<close>

  The array \<open>s\<close> is a local of the call: it is pushed on the stack, its address is the
  result, and it is popped when the call returns. A pointer to a local is its position
  on the stack.
\<close>

definition Tensor_size :: "tensor \<Rightarrow> 'n mem \<Rightarrow> nat \<times> 'n mem" where
  "Tensor_size T m =
     (let m1 = m\<lparr>stack := stack m @ [[rows T, cols T]]\<rparr>;
          s = length (stack m1) - 1
      in (s, m1\<lparr>stack := butlast (stack m1)\<rparr>))"

text \<open>What a caller gets from \<^verbatim>\<open>p[k]\<close> for a pointer \<open>p\<close> to a local \<^verbatim>\<open>int\<close> array.\<close>

definition read_local :: "nat \<Rightarrow> int \<Rightarrow> 'n mem \<Rightarrow> error + int" where
  "read_local p k m =
     (if p < length (stack m)
      then (if 0 \<le> k \<and> k < int (length (stack m ! p))
            then Inr (stack m ! p ! nat k) else Inl OutOfBounds)
      else Inl DanglingPointer)"

text \<open>\<^verbatim>\<open>N operator()(int x, int y) { return t[x][y]; }\<close>\<close>

definition Tensor_call :: "layout \<Rightarrow> tensor \<Rightarrow> int \<Rightarrow> int \<Rightarrow> 'n mem \<Rightarrow> error + ('n \<times> 'n mem)" where
  "Tensor_call L T x y m =
     (case index2 L (t T) x y m of Inl e \<Rightarrow> Inl e | Inr v \<Rightarrow> Inr (v, m))"

section \<open>Properties of a Tensor and its memory\<close>

text \<open>
  An array of \<open>n\<close> objects of \<open>s\<close> bytes each at the start of a block of \<open>cap\<close> bytes:
  object \<open>k\<close> starts at byte \<open>k * s\<close>, and no other object starts anywhere
  (\<open>b\<close> runs over the byte offsets).
\<close>

definition arr_part :: "nat \<Rightarrow> (nat \<Rightarrow> 'n cell) \<Rightarrow> nat \<Rightarrow> nat \<Rightarrow> 'n cell list" where
  "arr_part s F n cap = map (\<lambda>b. if b < n * s \<and> s dvd b then F (b div s) else Indet) [0..<cap]"

text \<open>
  An array of pointers and an array of elements that fill their block, as a correct
  allocation of a source buffer gives them.
\<close>

definition ptr_array :: "layout \<Rightarrow> addr list \<Rightarrow> 'n cell list" where
  "ptr_array L ps = arr_part (sizeof_ptr L) (\<lambda>k. Ptr (ps ! k)) (length ps) (length ps * sizeof_ptr L)"

definition val_array :: "layout \<Rightarrow> 'n list \<Rightarrow> 'n cell list" where
  "val_array L vs = arr_part (sizeof_N L) (\<lambda>k. Val (vs ! k)) (length vs) (length vs * sizeof_N L)"

text \<open>
  The storage invariant of the data model. The outer block is exactly \<open>rows\<close> pointers;
  each points to a live block that holds exactly \<open>cols\<close> elements, at the offsets
  \<open>j * sizeof_N\<close>, and nothing else; the row blocks and the outer block are pairwise
  different blocks (the Tensor owns \<open>rows \<times> cols\<close> elements of its own).
\<close>

definition is_val :: "'n cell \<Rightarrow> bool" where
  "is_val c = (case c of Val v \<Rightarrow> True | Indet \<Rightarrow> False | Ptr p \<Rightarrow> False)"

definition is_indet :: "'n cell \<Rightarrow> bool" where
  "is_indet c = (case c of Indet \<Rightarrow> True | Ptr p \<Rightarrow> False | Val v \<Rightarrow> False)"

definition elems_ok :: "layout \<Rightarrow> int \<Rightarrow> 'n cell list \<Rightarrow> bool" where
  "elems_ok L c rb =
     (0 \<le> c \<and> nat c * sizeof_N L \<le> length rb
      \<and> list_all (\<lambda>b. if b < nat c * sizeof_N L \<and> sizeof_N L dvd b
                       then is_val (rb ! b) else is_indet (rb ! b))
           [0..<length rb])"

definition row_ok :: "layout \<Rightarrow> int \<Rightarrow> 'n mem \<Rightarrow> 'n cell \<Rightarrow> bool" where
  "row_ok L c m s =
     (case s of
        Ptr p \<Rightarrow> (case block_at p m of Inl e \<Rightarrow> False | Inr rb \<Rightarrow> elems_ok L c rb)
      | Indet \<Rightarrow> False
      | Val v \<Rightarrow> False)"

definition outer_slots :: "layout \<Rightarrow> int \<Rightarrow> 'n cell list \<Rightarrow> 'n cell list" where
  "outer_slots L r ob = map (\<lambda>i. ob ! (i * sizeof_ptr L)) [0..<nat r]"

definition row_ptrs :: "'n cell list \<Rightarrow> addr list" where
  "row_ptrs ss = concat (map (\<lambda>s. case s of Ptr p \<Rightarrow> [p] | Indet \<Rightarrow> [] | Val v \<Rightarrow> []) ss)"

definition storage_inv :: "layout \<Rightarrow> tensor \<Rightarrow> 'n mem \<Rightarrow> bool" where
  "storage_inv L T m =
     (case block_at (t T) m of
        Inl e \<Rightarrow> False
      | Inr ob \<Rightarrow> 0 \<le> rows T \<and> length ob = nat (rows T) * sizeof_ptr L
                 \<and> list_all (row_ok L (cols T) m) (outer_slots L (rows T) ob)
                 \<and> distinct (t T # row_ptrs (outer_slots L (rows T) ob)))"

text \<open>
  The blocks a Tensor owns, in the order the destructor releases them: the row blocks
  \<^verbatim>\<open>t[0]\<close>, ..., \<^verbatim>\<open>t[rows - 1]\<close>, then the outer block \<^verbatim>\<open>t\<close>. \<open>release\<close> is what
  releasing a list of blocks does to the heap.
\<close>

definition owned :: "layout \<Rightarrow> tensor \<Rightarrow> 'n mem \<Rightarrow> addr list" where
  "owned L T m =
     (case block_at (t T) m of
        Inl e \<Rightarrow> []
      | Inr ob \<Rightarrow> row_ptrs (outer_slots L (rows T) ob) @ [t T])"

definition release :: "addr list \<Rightarrow> 'a option list \<Rightarrow> 'a option list" where
  "release as h = fold (\<lambda>a h'. h'[a := None]) as h"

text \<open>
  The precondition of the copying constructors: every position \<open>(i, j)\<close> of the
  \<open>x \<times> y\<close> prefix of the source can be read. Nothing is asked of the source outside
  that prefix.
\<close>

definition buffer_ok :: "layout \<Rightarrow> addr \<Rightarrow> int \<Rightarrow> int \<Rightarrow> 'n mem \<Rightarrow> bool" where
  "buffer_ok L content x y m =
     list_all (\<lambda>i. list_all (\<lambda>j. case index2 L content i j m of Inl e \<Rightarrow> False | Inr v \<Rightarrow> True)
                 [0..y - 1]) [0..x - 1]"

definition vector_ok :: "'n list list \<Rightarrow> int \<Rightarrow> int \<Rightarrow> bool" where
  "vector_ok content x y =
     list_all (\<lambda>i. list_all (\<lambda>j. case vec_at content i j of Inl e \<Rightarrow> False | Inr v \<Rightarrow> True)
                 [0..y - 1]) [0..x - 1]"

text \<open>Two sources agree on every position of the \<open>x \<times> y\<close> prefix.\<close>

definition prefix_agree :: "(int \<Rightarrow> int \<Rightarrow> 'a) \<Rightarrow> (int \<Rightarrow> int \<Rightarrow> 'a) \<Rightarrow> int \<Rightarrow> int \<Rightarrow> bool" where
  "prefix_agree f g x y = list_all (\<lambda>i. list_all (\<lambda>j. f i j = g i j) [0..y - 1]) [0..x - 1]"

text \<open>
  What a caller can observe of the outcome of a constructor called with dimensions
  \<open>x\<close>, \<open>y\<close>: the error, or the shape and what the call operator returns at every
  in-bounds position.
\<close>

definition observe ::
  "layout \<Rightarrow> int \<Rightarrow> int \<Rightarrow> error + (tensor \<times> 'n mem) \<Rightarrow> error + (int \<times> int \<times> (error + 'n) list list)"
where
  "observe L x y r =
     (case r of
        Inl e \<Rightarrow> Inl e
      | Inr (T, m) \<Rightarrow>
          Inr (rows T, cols T,
               map (\<lambda>i. map (\<lambda>j. case Tensor_call L T i j m of Inl e \<Rightarrow> Inl e | Inr (v, m') \<Rightarrow> Inr v)
                          [0..y - 1]) [0..x - 1]))"

text \<open>
  The blocks a constructor has built when its outer loop reaches row \<open>i\<close>, for the
  elements \<open>v i j\<close>: the outer block with its first \<open>i\<close> pointers set, and the \<open>i\<close>
  finished rows, each a block of \<open>y\<close> pointers' size holding \<open>y\<close> elements.
\<close>

definition outer_part :: "layout \<Rightarrow> addr \<Rightarrow> int \<Rightarrow> int \<Rightarrow> 'n cell list" where
  "outer_part L tp i x =
     arr_part (sizeof_ptr L) (\<lambda>k. Ptr (Suc (tp + k))) (nat i) (nat x * sizeof_ptr L)"

definition row_part :: "layout \<Rightarrow> (int \<Rightarrow> 'n) \<Rightarrow> int \<Rightarrow> int \<Rightarrow> 'n cell list" where
  "row_part L w j y =
     arr_part (sizeof_N L) (\<lambda>k. Val (w (int k))) (nat j) (nat y * sizeof_ptr L)"

definition row_blocks :: "layout \<Rightarrow> (int \<Rightarrow> int \<Rightarrow> 'n) \<Rightarrow> int \<Rightarrow> int \<Rightarrow> 'n cell list option list" where
  "row_blocks L v y i = map (\<lambda>k. Some (row_part L (v k) y y)) [0..i - 1]"

text \<open>
  Layouts and memories for the examples: \<open>N = int\<close> and \<open>N = long double\<close> with 8-byte
  pointers, \<open>N = int\<close> with 4-byte pointers; an empty memory; a memory holding the buffer
  \<^verbatim>\<open>{{1,2,3},{4,5,6}}\<close> at address 0; and the same buffer inside a larger one, with a
  third row and a fourth column.
\<close>

definition lp64_int :: layout where
  "lp64_int = \<lparr>sizeof_ptr = 8, sizeof_N = 4\<rparr>"

definition ilp32_int :: layout where
  "ilp32_int = \<lparr>sizeof_ptr = 4, sizeof_N = 4\<rparr>"

definition lp64_long_double :: layout where
  "lp64_long_double = \<lparr>sizeof_ptr = 8, sizeof_N = 16\<rparr>"

definition empty_mem :: "int mem" where
  "empty_mem = \<lparr>heap = [], stack = [], frees = []\<rparr>"

definition buffer_mem :: "layout \<Rightarrow> int mem" where
  "buffer_mem L =
     \<lparr>heap = [Some (ptr_array L [1, 2]), Some (val_array L [1, 2, 3]), Some (val_array L [4, 5, 6])],
      stack = [], frees = []\<rparr>"

definition wide_mem :: "layout \<Rightarrow> int mem" where
  "wide_mem L =
     \<lparr>heap = [Some (ptr_array L [1, 2, 3]), Some (val_array L [1, 2, 3, 10]),
              Some (val_array L [4, 5, 6, 11]), Some (val_array L [12])],
      stack = [], frees = []\<rparr>"

text \<open>
  The \<open>2 \<times> 3\<close> Tensor of \<^verbatim>\<open>int\<close> zeros as the constructor builds it in the empty
  memory, and the memory in which the constructors fill their first row when called with
  one row and one column: an outer block with its one pointer set, and the row, one
  pointer wide and still empty.
\<close>

definition built_tensor :: tensor where
  "built_tensor = \<lparr>rows = 2, cols = 3, t = 0\<rparr>"

definition built_mem :: "int mem" where
  "built_mem =
     (case Tensor_empty lp64_int 2 3 empty_mem of Inl e \<Rightarrow> empty_mem | Inr (T, m) \<Rightarrow> m)"

definition first_row_mem :: "layout \<Rightarrow> int mem" where
  "first_row_mem L =
     \<lparr>heap = [Some (ptr_array L [1]), Some (replicate (sizeof_ptr L) Indet)],
      stack = [], frees = []\<rparr>"

section \<open>The loops, exactly\<close>

declare fill_cols.simps [simp del] fill_rows.simps [simp del] delete_rows.simps [simp del]

lemma block_at_Inr: "block_at a m = Inr b \<longleftrightarrow> a < length (heap m) \<and> heap m ! a = Some b"
  by (auto simp: block_at_def split: option.splits)

lemma length_arr_part: "length (arr_part s F n cap) = cap"
  by (simp add: arr_part_def)

lemma nth_arr_part:
  "b < cap \<Longrightarrow> arr_part s F n cap ! b = (if b < n * s \<and> s dvd b then F (b div s) else Indet)"
  by (simp add: arr_part_def)

lemma arr_part_0: "arr_part s F 0 cap = replicate cap Indet"
  by (rule nth_equalityI) (simp_all add: arr_part_def)

lemma arr_part_at:
  assumes "0 < s" "k < n" "n * s \<le> cap"
  shows "arr_part s F n cap ! (k * s) = F k"
proof -
  have lt: "k * s < n * s" using assms by simp
  have "k * s < cap" using lt assms(3) by (rule less_le_trans)
  then have "arr_part s F n cap ! (k * s) = (if k * s < n * s \<and> s dvd k * s then F (k * s div s) else Indet)"
    by (rule nth_arr_part)
  then show ?thesis using lt assms(1) by simp
qed

lemma length_put: "length (put L off c b) = length b"
  by (simp add: put_def)

lemma multiple_between:
  assumes "0 < (s::nat)" "s dvd b" "b < Suc n * s" "b \<noteq> n * s"
  shows "b < n * s"
proof -
  from assms(2) obtain q where q: "b = q * s" by (auto simp: dvd_def mult.commute)
  with assms(3) have "q * s < Suc n * s" by simp
  then have "q < Suc n" by (simp only: mult_less_cancel2)
  moreover from q assms(4) have "q \<noteq> n" by auto
  ultimately have "q < n" by simp
  then show ?thesis using q assms(1) by simp
qed

lemma multiple_end:
  assumes "0 < (s::nat)" "s dvd b" "b < n * s"
  shows "b + s \<le> n * s"
proof -
  from assms(2) obtain q where q: "b = q * s" by (auto simp: dvd_def mult.commute)
  with assms(3) have "q * s < n * s" by simp
  then have "q < n" by (simp only: mult_less_cancel2)
  then have "Suc q * s \<le> n * s" by (intro mult_le_mono1) simp
  then show ?thesis using q by simp
qed

text \<open>Writing the next object of an array extends the array by one, and harms nothing.\<close>

lemma put_arr_part:
  assumes "0 < s" "\<And>k. size_of L (F k) = s" "Suc n * s \<le> cap"
  shows "put L (n * s) (F n) (arr_part s F n cap) = arr_part s F (Suc n) cap"
proof (rule nth_equalityI)
  show "length (put L (n * s) (F n) (arr_part s F n cap)) = length (arr_part s F (Suc n) cap)"
    by (simp add: length_put length_arr_part)
next
  fix b assume "b < length (put L (n * s) (F n) (arr_part s F n cap))"
  then have b: "b < cap" by (simp add: length_put length_arr_part)
  show "put L (n * s) (F n) (arr_part s F n cap) ! b = arr_part s F (Suc n) cap ! b"
  proof (cases "b = n * s")
    case True
    then show ?thesis
      using b assms(1) by (simp add: put_def length_arr_part nth_arr_part)
  next
    case ne: False
    show ?thesis
    proof (cases "b < n * s \<and> s dvd b")
      case True
      then have "b + s \<le> n * s" using assms(1) multiple_end by blast
      then show ?thesis
        using b ne True assms(2) by (simp add: put_def length_arr_part nth_arr_part)
    next
      case False
      then have "\<not> (b < Suc n * s \<and> s dvd b)"
        using multiple_between [OF assms(1) _ _ ne] by blast
      then show ?thesis
        using b ne False by (auto simp: put_def length_arr_part nth_arr_part)
    qed
  qed
qed

lemma load_ptr_other:
  assumes "a \<noteq> p"
  shows "load_ptr L a i (m\<lparr>heap := (heap m)[p := X]\<rparr>) = load_ptr L a i m"
  using assms by (simp add: load_ptr_def load_def block_at_def)

lemma fit_less:
  assumes "0 < (s::nat)" "Suc n * s \<le> cap"
  shows "n * s < cap"
proof -
  have "n * s < Suc n * s" using assms(1) by simp
  then show ?thesis using assms(2) by (rule less_le_trans)
qed

lemma length_row_part: "length (row_part L w j y) = nat y * sizeof_ptr L"
  by (simp add: row_part_def length_arr_part)

lemma length_outer_part: "length (outer_part L tp i x) = nat x * sizeof_ptr L"
  by (simp add: outer_part_def length_arr_part)

lemma length_row_blocks: "0 \<le> i \<Longrightarrow> length (row_blocks L v y i) = nat i"
  by (simp add: row_blocks_def)

lemma row_blocks_step:
  "0 \<le> i \<Longrightarrow> row_blocks L v y (i + 1) = row_blocks L v y i @ [Some (row_part L (v i) y y)]"
  by (simp add: row_blocks_def upto_rec2)

lemma row_part_0: "row_part L w 0 y = replicate (nat y * sizeof_ptr L) Indet"
  by (simp add: row_part_def arr_part_0)

text \<open>
  One assignment \<^verbatim>\<open>t[i][j] = v\<close> into a row that holds its first \<open>j\<close> elements: it
  succeeds exactly when element \<open>j\<close> ends inside the \<open>y * sizeof_ptr\<close> bytes of the row.
\<close>

lemma assign2_row_part:
  fixes m :: "'n mem"
  assumes "0 < sizeof_N L" "load_ptr L tp i m = Inr p" "p < length (heap m)"
    and "heap m ! p = Some (row_part L w j y)" "0 \<le> j"
  shows "assign2 L tp i j (w j) m =
           (if (nat j + 1) * sizeof_N L \<le> nat y * sizeof_ptr L
            then Inr (m\<lparr>heap := (heap m)[p := Some (row_part L w (j + 1) y)]\<rparr>)
            else Inl OutOfBounds)"
proof -
  let ?s = "sizeof_N L"
  let ?F = "\<lambda>k. Val (w (int k)) :: 'n cell"
  let ?cap = "nat y * sizeof_ptr L"
  have blk: "block_at p m = Inr (row_part L w j y)"
    using assms(3,4) by (simp add: block_at_Inr)
  have sz: "size_of L (Val (w j)) = ?s" by (simp add: size_of_def)
  show ?thesis
  proof (cases "(nat j + 1) * ?s \<le> ?cap")
    case True
    then have fit: "Suc (nat j) * ?s \<le> ?cap" by simp
    have lt: "nat j * ?s < ?cap" using assms(1) fit by (rule fit_less)
    have "put L (nat j * ?s) (?F (nat j)) (arr_part ?s ?F (nat j) ?cap) = arr_part ?s ?F (Suc (nat j)) ?cap"
      using assms(1) _ fit by (rule put_arr_part) (simp add: size_of_def)
    moreover have "?F (nat j) = Val (w j)" using assms(5) by simp
    moreover have "nat (j + 1) = Suc (nat j)" using assms(5) by simp
    ultimately have "put L (nat j * ?s) (Val (w j)) (row_part L w j y) = row_part L w (j + 1) y"
      by (simp add: row_part_def)
    then show ?thesis
      using True lt assms(2,5) blk sz
      by (simp add: assign2_def store_val_def store_def length_row_part)
  next
    case False
    then show ?thesis
      using assms(2,5) blk sz
      by (simp add: assign2_def store_val_def store_def length_row_part)
  qed
qed

lemma fill_cols_exact:
  assumes "0 < sizeof_N L" "load_ptr L (t T) i m = Inr p" "p \<noteq> t T" "p < length (heap m)"
    and "heap m ! p = Some (row_part L w j y)" "0 \<le> j" "j \<le> y"
    and "nat y * sizeof_N L \<le> nat y * sizeof_ptr L" "b \<le> p"
    and "\<And>j' m'. j \<le> j' \<Longrightarrow> j' < y \<Longrightarrow> take b (heap m') = take b (heap m) \<Longrightarrow> rhs i j' m' = Inr (w j')"
  shows "fill_cols L rhs T i j y m = Inr (m\<lparr>heap := (heap m)[p := Some (row_part L w y y)]\<rparr>)"
  using assms
proof (induction L rhs T i j y m rule: fill_cols.induct)
  case (1 L rhs T i j y m)
  show ?case
  proof (cases "j < y")
    case False
    with "1.prems" have "j = y" by simp
    then have "(heap m)[p := Some (row_part L w y y)] = heap m"
      using "1.prems" by (simp add: list_update_same_conv)
    then show ?thesis
      using False by (subst fill_cols.simps) simp
  next
    case True
    let ?m1 = "m\<lparr>heap := (heap m)[p := Some (row_part L w (j + 1) y)]\<rparr>"
    have r: "rhs i j m = Inr (w j)"
      using "1.prems"(10) [of j m] True by simp
    have "nat j + 1 \<le> nat y" using True "1.prems"(6) by simp
    then have "(nat j + 1) * sizeof_N L \<le> nat y * sizeof_N L" by (rule mult_le_mono1)
    then have fit: "(nat j + 1) * sizeof_N L \<le> nat y * sizeof_ptr L"
      using "1.prems"(8) by (rule le_trans)
    have st: "assign2 L (t T) i j (w j) m = Inr ?m1"
      using assign2_row_part [OF "1.prems"(1,2,4,5,6)] fit by simp
    have ih: "fill_cols L rhs T i (j + 1) y ?m1 =
        Inr (?m1\<lparr>heap := (heap ?m1)[p := Some (row_part L w y y)]\<rparr>)"
    proof (rule "1.IH" [OF True r st])
      show "load_ptr L (t T) i ?m1 = Inr p"
        using "1.prems"(2,3) by (simp add: load_ptr_other)
      show "heap ?m1 ! p = Some (row_part L w (j + 1) y)"
        using "1.prems"(4) by simp
      show "\<And>j' m'. j + 1 \<le> j' \<Longrightarrow> j' < y \<Longrightarrow> take b (heap m') = take b (heap ?m1) \<Longrightarrow> rhs i j' m' = Inr (w j')"
        using "1.prems"(9,10) by simp
    qed (use "1.prems" True in auto)
    show ?thesis
      using True r st ih by (subst fill_cols.simps) simp
  qed
qed

text \<open>
  When \<open>y\<close> elements are more bytes than \<open>y\<close> pointers, the loop over a row always
  ends in a write past the end of the row.
\<close>

lemma fill_cols_overrun:
  assumes "0 < sizeof_N L" "load_ptr L (t T) i m = Inr p" "p \<noteq> t T" "p < length (heap m)"
    and "heap m ! p = Some (row_part L w j y)" "0 \<le> j" "j \<le> y"
    and "nat y * sizeof_ptr L < nat y * sizeof_N L" "nat j * sizeof_N L \<le> nat y * sizeof_ptr L"
    and "b \<le> p"
    and "\<And>j' m'. j \<le> j' \<Longrightarrow> j' < y \<Longrightarrow> take b (heap m') = take b (heap m) \<Longrightarrow> rhs i j' m' = Inr (w j')"
  shows "fill_cols L rhs T i j y m = Inl OutOfBounds"
  using assms
proof (induction L rhs T i j y m rule: fill_cols.induct)
  case (1 L rhs T i j y m)
  have lt: "j < y"
  proof (rule ccontr)
    assume "\<not> j < y"
    with "1.prems"(7) have "j = y" by simp
    with "1.prems"(8,9) show False by simp
  qed
  let ?m1 = "m\<lparr>heap := (heap m)[p := Some (row_part L w (j + 1) y)]\<rparr>"
  have r: "rhs i j m = Inr (w j)"
    using "1.prems"(11) [of j m] lt by simp
  note a = assign2_row_part [OF "1.prems"(1,2,4,5,6)]
  show ?case
  proof (cases "(nat j + 1) * sizeof_N L \<le> nat y * sizeof_ptr L")
    case False
    then show ?thesis
      using lt r a by (subst fill_cols.simps) simp
  next
    case True
    then have st: "assign2 L (t T) i j (w j) m = Inr ?m1" using a by simp
    have "fill_cols L rhs T i (j + 1) y ?m1 = Inl OutOfBounds"
    proof (rule "1.IH" [OF lt r st])
      show "load_ptr L (t T) i ?m1 = Inr p"
        using "1.prems"(2,3) by (simp add: load_ptr_other)
      show "heap ?m1 ! p = Some (row_part L w (j + 1) y)"
        using "1.prems"(4) by simp
      show "nat (j + 1) * sizeof_N L \<le> nat y * sizeof_ptr L"
        using True "1.prems"(6) by (simp add: nat_add_distrib)
      show "\<And>j' m'. j + 1 \<le> j' \<Longrightarrow> j' < y \<Longrightarrow> take b (heap m') = take b (heap ?m1) \<Longrightarrow> rhs i j' m' = Inr (w j')"
        using "1.prems"(10,11) by simp
    qed (use "1.prems" lt in auto)
    then show ?thesis
      using lt r st by (subst fill_cols.simps) simp
  qed
qed

text \<open>One step of the outer loop up to the inner loop: the row is allocated and linked.\<close>

lemma row_prepared:
  fixes m :: "'n mem"
  assumes "0 < sizeof_ptr L" "t T = length H" "cols T = y" "0 \<le> y" "0 \<le> i" "i < x"
    and "heap m = H @ [Some (outer_part L (length H) i x)] @ row_blocks L v y i"
  defines "p \<equiv> Suc (length H + nat i)"
  defines "m2 \<equiv> m\<lparr>heap := H @ [Some (outer_part L (length H) (i + 1) x)] @ row_blocks L v y i
                            @ [Some (row_part L (v i) 0 y)]\<rparr>"
  shows "new_arr L (cols T) m = Inr (p, m\<lparr>heap := heap m @ [Some (row_part L (v i) 0 y)]\<rparr>)"
    and "store_ptr L (t T) i p (m\<lparr>heap := heap m @ [Some (row_part L (v i) 0 y)]\<rparr>) = Inr m2"
    and "load_ptr L (t T) i m2 = Inr p"
    and "heap m2 ! p = Some (row_part L (v i) 0 y)" "p < length (heap m2)"
proof -
  let ?tp = "length H"
  let ?s = "sizeof_ptr L"
  let ?P = "\<lambda>k. Ptr (Suc (?tp + k)) :: 'n cell"
  let ?cap = "nat x * ?s"
  let ?m1 = "m\<lparr>heap := heap m @ [Some (row_part L (v i) 0 y)]\<rparr>"
  have lenm: "length (heap m) = p"
    using assms(5,7) by (simp add: length_row_blocks p_def)
  show n: "new_arr L (cols T) m = Inr (p, ?m1)"
    using assms(3,4) lenm by (simp add: new_arr_def row_part_0)
  have b1: "block_at (t T) ?m1 = Inr (outer_part L ?tp i x)"
    using assms(2,7) by (simp add: block_at_Inr nth_append)
  have "nat i + 1 \<le> nat x" using assms(5,6) by simp
  then have fit: "Suc (nat i) * ?s \<le> ?cap"
    using mult_le_mono1 [of "nat i + 1" "nat x" ?s] by simp
  have lt: "nat i * ?s < ?cap" using assms(1) fit by (rule fit_less)
  have "put L (nat i * ?s) (?P (nat i)) (arr_part ?s ?P (nat i) ?cap) = arr_part ?s ?P (Suc (nat i)) ?cap"
    using assms(1) _ fit by (rule put_arr_part) (simp add: size_of_def)
  moreover have "nat (i + 1) = Suc (nat i)" using assms(5) by simp
  ultimately have pt: "put L (nat i * ?s) (Ptr p) (outer_part L ?tp i x)
      = (outer_part L ?tp (i + 1) x :: 'n cell list)"
    by (simp add: outer_part_def p_def)
  have "(heap ?m1)[?tp := Some (outer_part L ?tp (i + 1) x)] = heap m2"
    using assms(7) by (simp add: m2_def list_update_append)
  then show s: "store_ptr L (t T) i p ?m1 = Inr m2"
    using assms(2,5) b1 pt lt fit
    by (simp add: store_ptr_def store_def length_outer_part size_of_def m2_def)
  have "(outer_part L ?tp (i + 1) x :: 'n cell list) ! (nat i * ?s) = Ptr p"
    unfolding outer_part_def p_def
    using arr_part_at [of ?s "nat i" "nat (i + 1)" ?cap ?P] assms(1,5) fit
    by (simp add: nat_add_distrib)
  moreover have "block_at (t T) m2 = Inr (outer_part L ?tp (i + 1) x)"
    using assms(2) by (simp add: block_at_Inr m2_def nth_append)
  ultimately show "load_ptr L (t T) i m2 = Inr p"
    using assms(5) lt fit by (simp add: load_ptr_def load_def length_outer_part)
  show "heap m2 ! p = Some (row_part L (v i) 0 y)"
    using assms(5) by (simp add: m2_def p_def nth_append length_row_blocks)
  show "p < length (heap m2)"
    using assms(5) by (simp add: m2_def p_def length_row_blocks)
qed

lemma fill_rows_exact:
  assumes "layout_ok L" "t T = length H" "cols T = y" "0 \<le> y" "0 \<le> i" "i \<le> x"
    and "nat y * sizeof_N L \<le> nat y * sizeof_ptr L"
    and "heap m = H @ [Some (outer_part L (length H) i x)] @ row_blocks L v y i"
    and "\<And>i' j' m'. 0 \<le> i' \<Longrightarrow> i' < x \<Longrightarrow> 0 \<le> j' \<Longrightarrow> j' < y \<Longrightarrow>
            take (length H) (heap m') = H \<Longrightarrow> rhs i' j' m' = Inr (v i' j')"
  shows "fill_rows L rhs T i x y m =
           Inr (m\<lparr>heap := H @ [Some (outer_part L (length H) x x)] @ row_blocks L v y x\<rparr>)"
  using assms
proof (induction L rhs T i x y m rule: fill_rows.induct)
  case (1 L rhs T i x y m)
  show ?case
  proof (cases "i < x")
    case False
    with "1.prems" have "i = x" by simp
    then show ?thesis
      using "1.prems" by (subst fill_rows.simps) simp
  next
    case True
    let ?tp = "length H"
    let ?p = "Suc (length H + nat i)"
    let ?m1 = "m\<lparr>heap := heap m @ [Some (row_part L (v i) 0 y)]\<rparr>"
    let ?m2 = "m\<lparr>heap := H @ [Some (outer_part L ?tp (i + 1) x)] @ row_blocks L v y i
                            @ [Some (row_part L (v i) 0 y)]\<rparr>"
    let ?m3 = "m\<lparr>heap := H @ [Some (outer_part L ?tp (i + 1) x)] @ row_blocks L v y (i + 1)\<rparr>"
    have sp: "0 < sizeof_ptr L" "0 < sizeof_N L"
      using "1.prems"(1) by (simp_all add: layout_ok_def)
    note rp = row_prepared [OF sp(1) "1.prems"(2,3,4,5) True "1.prems"(8)]
    have f: "fill_cols L rhs T i 0 y ?m2 =
        Inr (?m2\<lparr>heap := (heap ?m2)[?p := Some (row_part L (v i) y y)]\<rparr>)"
    proof (rule fill_cols_exact [where b = "?tp"])
      show "\<And>j' m'. 0 \<le> j' \<Longrightarrow> j' < y \<Longrightarrow> take ?tp (heap m') = take ?tp (heap ?m2) \<Longrightarrow>
              rhs i j' m' = Inr (v i j')"
        using "1.prems"(9) "1.prems"(5) True by simp
    qed (use sp rp "1.prems" in simp_all)
    have "(heap ?m2)[?p := Some (row_part L (v i) y y)] = heap ?m3"
      using "1.prems"(5)
      by (simp add: row_blocks_step list_update_append length_row_blocks)
    with f have f': "fill_cols L rhs T i 0 y ?m2 = Inr ?m3" by simp
    have ih: "fill_rows L rhs T (i + 1) x y ?m3 =
        Inr (?m3\<lparr>heap := H @ [Some (outer_part L ?tp x x)] @ row_blocks L v y x\<rparr>)"
      by (rule "1.IH" [OF True rp(1) refl rp(2) f']) (use "1.prems" True in auto)
    show ?thesis
      using True rp(1,2) f' ih by (subst fill_rows.simps) simp
  qed
qed

lemma outer_part_0: "outer_part L tp 0 x = replicate (nat x * sizeof_ptr L) Indet"
  by (simp add: outer_part_def arr_part_0)

lemma construct_exact:
  assumes "layout_ok L" "0 \<le> x" "0 \<le> y"
    and "nat y * sizeof_N L \<le> nat y * sizeof_ptr L"
    and "\<And>i j m'. 0 \<le> i \<Longrightarrow> i < x \<Longrightarrow> 0 \<le> j \<Longrightarrow> j < y \<Longrightarrow>
            take (length (heap m)) (heap m') = heap m \<Longrightarrow> rhs i j m' = Inr (v i j)"
  shows "construct L rhs x y m =
           Inr (\<lparr>rows = x, cols = y, t = length (heap m)\<rparr>,
                m\<lparr>heap := heap m @ [Some (outer_part L (length (heap m)) x x)] @ row_blocks L v y x\<rparr>)"
proof -
  let ?T = "\<lparr>rows = x, cols = y, t = length (heap m)\<rparr>"
  let ?m1 = "m\<lparr>heap := heap m @ [Some (replicate (nat x * sizeof_ptr L) Indet)]\<rparr>"
  have n: "new_arr L x m = Inr (length (heap m), ?m1)"
    using assms by (simp add: new_arr_def)
  have "fill_rows L rhs ?T 0 x y ?m1 =
      Inr (?m1\<lparr>heap := heap m @ [Some (outer_part L (length (heap m)) x x)] @ row_blocks L v y x\<rparr>)"
    by (rule fill_rows_exact) (use assms in \<open>auto simp: outer_part_0 row_blocks_def\<close>)
  then show ?thesis
    using n by (simp add: construct_def)
qed

text \<open>
  With elements wider than pointers, every construction with at least one row and one
  column overruns its first row.
\<close>

lemma construct_overrun:
  assumes "layout_ok L" "0 < x" "0 < y" "sizeof_ptr L < sizeof_N L"
    and "\<And>j m'. 0 \<le> j \<Longrightarrow> j < y \<Longrightarrow>
            take (length (heap m)) (heap m') = heap m \<Longrightarrow> rhs 0 j m' = Inr (w j)"
  shows "construct L rhs x y m = Inl OutOfBounds"
proof -
  let ?T = "\<lparr>rows = x, cols = y, t = length (heap m)\<rparr>"
  let ?H = "heap m"
  let ?m1 = "m\<lparr>heap := heap m @ [Some (replicate (nat x * sizeof_ptr L) Indet)]\<rparr>"
  let ?p = "Suc (length ?H + nat 0)"
  let ?m2 = "?m1\<lparr>heap := ?H @ [Some (outer_part L (length ?H) (0 + 1) x)] @ row_blocks L (\<lambda>i. w) y 0
                            @ [Some (row_part L w 0 y)]\<rparr>"
  have sp: "0 < sizeof_ptr L" "0 < sizeof_N L"
    using assms(1) by (simp_all add: layout_ok_def)
  have n: "new_arr L x m = Inr (length (heap m), ?m1)"
    using assms by (simp add: new_arr_def)
  have h1: "heap ?m1 = ?H @ [Some (outer_part L (length ?H) 0 x)] @ row_blocks L (\<lambda>i. w) y 0"
    by (simp add: outer_part_0 row_blocks_def)
  have y0: "0 \<le> y" using assms(3) by simp
  note rp = row_prepared [where T = ?T and v = "\<lambda>i. w", OF sp(1) _ _ y0 _ assms(2) h1, simplified]
  have wide: "nat y * sizeof_ptr L < nat y * sizeof_N L"
    using assms(3,4) by simp
  have f: "fill_cols L rhs ?T 0 0 y ?m2 = Inl OutOfBounds"
  proof (rule fill_cols_overrun [where b = "length ?H" and p = ?p and w = w])
    show "\<And>j' m'. 0 \<le> j' \<Longrightarrow> j' < y \<Longrightarrow> take (length ?H) (heap m') = take (length ?H) (heap ?m2) \<Longrightarrow>
              rhs 0 j' m' = Inr (w j')"
      using assms(5) by simp
  qed (use sp rp wide y0 in simp_all)
  show ?thesis
    using n rp(1,2) f assms(2)
    by (simp add: construct_def fill_rows.simps [of L rhs ?T 0])
qed

lemma row_ptrs_map_Ptr: "row_ptrs (map (\<lambda>k. Ptr (f k)) ks) = map f ks"
  by (induction ks) (simp_all add: row_ptrs_def)

lemma outer_slots_built:
  assumes "0 < sizeof_ptr L" "0 \<le> x"
  shows "outer_slots L x (outer_part L tp x x) = map (\<lambda>k. Ptr (Suc (tp + k))) [0..<nat x]"
  unfolding outer_slots_def outer_part_def
  using assms(1) by (auto simp: arr_part_at)

lemma elem_fits:
  assumes "0 \<le> j" "j < y" "nat y * sizeof_N L \<le> cap"
  shows "Suc (nat j) * sizeof_N L \<le> cap"
proof -
  have "Suc (nat j) \<le> nat y" using assms(1,2) by simp
  then have "Suc (nat j) * sizeof_N L \<le> nat y * sizeof_N L" by (rule mult_le_mono1)
  then show ?thesis using assms(3) by (rule le_trans)
qed

lemma ptr_fits:
  assumes "0 \<le> i" "i < x"
  shows "Suc (nat i) * sizeof_ptr L \<le> nat x * sizeof_ptr L"
proof -
  have "Suc (nat i) \<le> nat x" using assms by simp
  then show ?thesis by (rule mult_le_mono1)
qed

lemma built_outer:
  assumes "heap m = H @ [Some (outer_part L (length H) x x)] @ row_blocks L v y x"
  shows "block_at (length H) m = Inr (outer_part L (length H) x x)"
  using assms by (simp add: block_at_Inr)

lemma built_row:
  assumes "heap m = H @ [Some (outer_part L (length H) x x)] @ row_blocks L v y x"
    and "0 \<le> i" "i < x"
  shows "block_at (Suc (length H + nat i)) m = Inr (row_part L (v i) y y)"
proof -
  have "nat i < length (row_blocks L v y x)"
    using assms by (simp add: row_blocks_def)
  moreover have "row_blocks L v y x ! nat i = Some (row_part L (v i) y y)"
    using assms by (simp add: row_blocks_def)
  ultimately show ?thesis
    using assms by (simp add: block_at_Inr nth_append)
qed

lemma built_load_ptr:
  fixes m :: "'n mem"
  assumes "heap m = H @ [Some (outer_part L (length H) x x)] @ row_blocks L v y x"
    and "0 < sizeof_ptr L" "0 \<le> i" "i < x"
  shows "load_ptr L (length H) i m = Inr (Suc (length H + nat i))"
proof -
  let ?s = "sizeof_ptr L"
  let ?P = "\<lambda>k. Ptr (Suc (length H + k)) :: 'n cell"
  have fit: "Suc (nat i) * ?s \<le> nat x * ?s" using assms(3,4) by (rule ptr_fits)
  have lt: "nat i * ?s < nat x * ?s" using assms(2) fit by (rule fit_less)
  have "arr_part ?s ?P (nat x) (nat x * ?s) ! (nat i * ?s) = ?P (nat i)"
    using assms(2,3,4) by (intro arr_part_at) simp_all
  then have "(outer_part L (length H) x x :: 'n cell list) ! (nat i * ?s) = Ptr (Suc (length H + nat i))"
    by (simp add: outer_part_def)
  then show ?thesis
    using built_outer [OF assms(1)] assms(3) lt fit
    by (simp add: load_ptr_def load_def length_outer_part)
qed

lemma row_part_at:
  fixes w :: "int \<Rightarrow> 'n"
  assumes "0 < sizeof_N L" "0 \<le> j" "j < y" "nat y * sizeof_N L \<le> nat y * sizeof_ptr L"
  shows "row_part L w y y ! (nat j * sizeof_N L) = Val (w j)"
proof -
  let ?F = "\<lambda>k. Val (w (int k)) :: 'n cell"
  have "arr_part (sizeof_N L) ?F (nat y) (nat y * sizeof_ptr L) ! (nat j * sizeof_N L) = ?F (nat j)"
    using assms by (intro arr_part_at) simp_all
  then show ?thesis using assms(2) by (simp add: row_part_def)
qed

lemma built_index2:
  assumes "heap m = H @ [Some (outer_part L (length H) x x)] @ row_blocks L v y x"
    and "layout_ok L" "nat y * sizeof_N L \<le> nat y * sizeof_ptr L"
    and "0 \<le> i" "i < x" "0 \<le> j" "j < y"
  shows "index2 L (length H) i j m = Inr (v i j)"
proof -
  have sp: "0 < sizeof_ptr L" "0 < sizeof_N L"
    using assms(2) by (simp_all add: layout_ok_def)
  have lp: "load_ptr L (length H) i m = Inr (Suc (length H + nat i))"
    using assms(1) sp(1) assms(4,5) by (rule built_load_ptr)
  have fit: "Suc (nat j) * sizeof_N L \<le> nat y * sizeof_ptr L"
    using assms(6,7,3) by (rule elem_fits)
  have lt: "nat j * sizeof_N L < nat y * sizeof_ptr L" using sp(2) fit by (rule fit_less)
  have "load_val L (Suc (length H + nat i)) j m = Inr (v i j)"
    using built_row [OF assms(1,4,5)] row_part_at [OF sp(2) assms(6,7,3), of "v i"] assms(6) lt fit
    by (simp add: load_val_def load_def length_row_part)
  with lp show ?thesis by (simp add: index2_def)
qed

lemma built_call:
  assumes "heap m = H @ [Some (outer_part L (length H) x x)] @ row_blocks L v y x"
    and "layout_ok L" "nat y * sizeof_N L \<le> nat y * sizeof_ptr L"
    and "0 \<le> i" "i < x" "0 \<le> j" "j < y"
  shows "Tensor_call L \<lparr>rows = x, cols = y, t = length H\<rparr> i j m = Inr (v i j, m)"
  using built_index2 [OF assms] by (simp add: Tensor_call_def)

lemma elems_ok_row_part:
  assumes "0 \<le> y" "nat y * sizeof_N L \<le> nat y * sizeof_ptr L"
  shows "elems_ok L y (row_part L w y y)"
proof -
  have "list_all (\<lambda>b. if b < nat y * sizeof_N L \<and> sizeof_N L dvd b
                       then is_val (row_part L w y y ! b) else is_indet (row_part L w y y ! b))
           [0..<length (row_part L w y y)]"
    by (simp add: list_all_iff row_part_def length_arr_part nth_arr_part is_val_def is_indet_def)
  then show ?thesis
    using assms by (simp add: elems_ok_def length_row_part)
qed

lemma built_storage_inv:
  fixes m :: "'n mem"
  assumes "heap m = H @ [Some (outer_part L (length H) x x)] @ row_blocks L v y x"
    and "layout_ok L" "0 \<le> x" "0 \<le> y" "nat y * sizeof_N L \<le> nat y * sizeof_ptr L"
  shows "storage_inv L \<lparr>rows = x, cols = y, t = length H\<rparr> m"
proof -
  have sp: "0 < sizeof_ptr L" using assms(2) by (simp add: layout_ok_def)
  let ?sl = "map (\<lambda>k. Ptr (Suc (length H + k))) [0..<nat x] :: 'n cell list"
  have sl: "outer_slots L x (outer_part L (length H) x x) = ?sl"
    using sp assms(3) by (rule outer_slots_built)
  have "row_ok L y m s" if "s \<in> set ?sl" for s
  proof -
    from that obtain k where k: "k < nat x" "s = Ptr (Suc (length H + k))" by auto
    then have "block_at (Suc (length H + nat (int k))) m = Inr (row_part L (v (int k)) y y)"
      by (intro built_row [OF assms(1)]) simp_all
    then show ?thesis
      using k elems_ok_row_part [OF assms(4,5)] by (simp add: row_ok_def)
  qed
  then have "list_all (row_ok L y m) ?sl" by (simp add: list_all_iff)
  moreover have "distinct (length H # row_ptrs ?sl)"
    by (auto simp: row_ptrs_map_Ptr distinct_map inj_on_def)
  ultimately show ?thesis
    using built_outer [OF assms(1)] assms(3) sl
    by (simp add: storage_inv_def length_outer_part)
qed

lemma index2_prefix:
  assumes "index2 L c i j m = Inr a" "take (length (heap m)) (heap m') = heap m"
  shows "index2 L c i j m' = Inr a"
proof -
  have len: "length (heap m) \<le> length (heap m')"
    using assms(2) by (metis length_take min.cobounded1 min.commute)
  have nth: "heap m' ! k = heap m ! k" if "k < length (heap m)" for k
    using assms(2) that by (metis nth_take)
  have blk: "block_at k m' = Inr b" if "block_at k m = Inr b" for k b
    using that len nth by (auto simp: block_at_Inr)
  from assms(1) obtain r where r: "load_ptr L c i m = Inr r" "load_val L r j m = Inr a"
    by (auto simp: index2_def split: sum.splits)
  from r(1) obtain ob where ob: "block_at c m = Inr ob"
    by (auto simp: load_ptr_def load_def split: sum.splits if_splits)
  from r(2) obtain rb where rb: "block_at r m = Inr rb"
    by (auto simp: load_val_def load_def split: sum.splits if_splits)
  have "load_ptr L c i m' = load_ptr L c i m"
    using ob blk [OF ob] by (simp add: load_ptr_def load_def)
  moreover have "load_val L r j m' = load_val L r j m"
    using rb blk [OF rb] by (simp add: load_val_def load_def)
  ultimately show ?thesis using r by (simp add: index2_def)
qed

lemma length_release: "length (release as h) = length h"
  by (induction as arbitrary: h) (simp_all add: release_def)

lemma release_Cons: "release (a # as) h = release as (h[a := None])"
  by (simp add: release_def)

lemma release_snoc: "release (as @ [a]) h = (release as h)[a := None]"
  by (simp add: release_def)

lemma nth_release:
  "k < length h \<Longrightarrow> release as h ! k = (if k \<in> set as then None else h ! k)"
proof (induction as arbitrary: h)
  case Nil
  then show ?case by (simp add: release_def)
next
  case (Cons a as)
  then show ?case
    by (simp add: release_Cons nth_list_update)
qed

lemma all_ptr_map:
  assumes "list_all (row_ok L c m) ss"
  shows "ss = map Ptr (row_ptrs ss)"
  using assms
proof (induction ss)
  case Nil
  then show ?case by (simp add: row_ptrs_def)
next
  case (Cons s ss)
  then show ?case
    by (cases s) (simp_all add: row_ptrs_def row_ok_def)
qed

lemma row_ok_live:
  assumes "list_all (row_ok L c m) ss" "p \<in> set (row_ptrs ss)"
  shows "p < length (heap m) \<and> heap m ! p \<noteq> None"
proof -
  from assms(2) have "Ptr p \<in> set ss"
    by (subst all_ptr_map [OF assms(1)]) simp
  with assms(1) have "row_ok L c m (Ptr p)" by (simp add: list_all_iff)
  then show ?thesis
    by (auto simp: row_ok_def block_at_Inr split: sum.splits)
qed

lemma delete_rows_exact:
  assumes "0 < sizeof_ptr L" "rows T = int (length ps)" "t T < length (heap m)"
    and "heap m ! t T = Some ob" "length ob = length ps * sizeof_ptr L"
    and "\<forall>k < length ps. ob ! (k * sizeof_ptr L) = Ptr (ps ! k)"
    and "distinct (t T # ps)" "0 \<le> i" "i \<le> rows T"
    and "\<forall>p \<in> set (drop (nat i) ps). p < length (heap m) \<and> heap m ! p \<noteq> None"
  shows "delete_rows L T i m =
           Inr (m\<lparr>heap := release (drop (nat i) ps) (heap m), frees := frees m @ drop (nat i) ps\<rparr>)"
  using assms
proof (induction L T i m rule: delete_rows.induct)
  case (1 L T i m)
  show ?case
  proof (cases "i < rows T")
    case False
    with "1.prems" have "drop (nat i) ps = []" by simp
    then show ?thesis
      using False by (subst delete_rows.simps) (simp add: release_def)
  next
    case True
    let ?p = "ps ! nat i"
    let ?m1 = "m\<lparr>heap := (heap m)[?p := None], frees := frees m @ [?p]\<rparr>"
    have ni: "nat i < length ps" using True "1.prems" by simp
    have dr: "drop (nat i) ps = ?p # drop (nat (i + 1)) ps"
      using ni "1.prems"(8) by (simp add: Cons_nth_drop_Suc nat_add_distrib)
    have pin: "?p \<in> set (drop (nat i) ps)" by (subst dr) simp
    have live: "?p < length (heap m)" "heap m ! ?p \<noteq> None"
      using "1.prems"(10) pin by auto
    have ne: "?p \<noteq> t T" using "1.prems"(7) nth_mem [OF ni] by auto
    have blk: "block_at (t T) m = Inr ob"
      using "1.prems" by (simp add: block_at_Inr)
    have "Suc (nat i) \<le> length ps" using ni by simp
    then have fit: "Suc (nat i) * sizeof_ptr L \<le> length ob"
      using mult_le_mono1 [of "Suc (nat i)" "length ps" "sizeof_ptr L"] "1.prems"(5) by simp
    have lt: "nat i * sizeof_ptr L < length ob" using "1.prems"(1) fit by (rule fit_less)
    have "ob ! (nat i * sizeof_ptr L) = Ptr ?p" using "1.prems"(6) ni by blast
    then have lp: "load_ptr L (t T) i m = Inr ?p"
      using "1.prems"(8) blk lt fit by (simp add: load_ptr_def load_def)
    have da: "delete_arr ?p m = Inr ?m1"
      using live by (auto simp: delete_arr_def block_at_def split: option.splits)
    have later: "q \<noteq> ?p" if "q \<in> set (drop (nat (i + 1)) ps)" for q
    proof -
      have "distinct (drop (nat i) ps)" using "1.prems"(7) by simp
      then show ?thesis using that by (subst (asm) dr) auto
    qed
    have ih: "delete_rows L T (i + 1) ?m1 =
        Inr (?m1\<lparr>heap := release (drop (nat (i + 1)) ps) (heap ?m1),
                 frees := frees ?m1 @ drop (nat (i + 1)) ps\<rparr>)"
    proof (rule "1.IH" [OF True lp da])
      show "heap ?m1 ! t T = Some ob"
        using "1.prems" ne by simp
      show "\<forall>p\<in>set (drop (nat (i + 1)) ps). p < length (heap ?m1) \<and> heap ?m1 ! p \<noteq> None"
      proof
        fix q assume q: "q \<in> set (drop (nat (i + 1)) ps)"
        then have "q \<in> set (drop (nat i) ps)" by (subst dr) simp
        with "1.prems"(10) have "q < length (heap m) \<and> heap m ! q \<noteq> None" by blast
        with later [OF q] show "q < length (heap ?m1) \<and> heap ?m1 ! q \<noteq> None" by simp
      qed
    qed (use "1.prems" True in auto)
    show ?thesis
      using True lp da ih by (subst delete_rows.simps) (simp add: dr release_Cons)
  qed
qed

text \<open>What the storage invariant says of the outer block.\<close>

lemma storage_inv_outer:
  assumes "storage_inv L T m"
  obtains ob ps where "block_at (t T) m = Inr ob" "0 \<le> rows T"
    "length ob = nat (rows T) * sizeof_ptr L"
    "list_all (row_ok L (cols T) m) (outer_slots L (rows T) ob)"
    "ps = row_ptrs (outer_slots L (rows T) ob)" "length ps = nat (rows T)"
    "\<forall>k < length ps. ob ! (k * sizeof_ptr L) = Ptr (ps ! k)" "distinct (t T # ps)"
    "owned L T m = ps @ [t T]"
proof -
  from assms obtain ob where ob: "block_at (t T) m = Inr ob" "0 \<le> rows T"
      "length ob = nat (rows T) * sizeof_ptr L"
      "list_all (row_ok L (cols T) m) (outer_slots L (rows T) ob)"
      "distinct (t T # row_ptrs (outer_slots L (rows T) ob))"
    by (auto simp: storage_inv_def split: sum.splits)
  let ?ss = "outer_slots L (rows T) ob"
  let ?ps = "row_ptrs ?ss"
  have ssm: "?ss = map Ptr ?ps" using ob(4) by (rule all_ptr_map)
  have "length ?ss = nat (rows T)" by (simp add: outer_slots_def)
  then have len: "length ?ps = nat (rows T)" using ssm by (metis length_map)
  have "ob ! (k * sizeof_ptr L) = Ptr (?ps ! k)" if "k < length ?ps" for k
  proof -
    have "?ss ! k = ob ! (k * sizeof_ptr L)" using that len by (simp add: outer_slots_def)
    moreover have "?ss ! k = Ptr (?ps ! k)" using that by (subst ssm) simp
    ultimately show ?thesis by simp
  qed
  moreover have "owned L T m = ?ps @ [t T]" using ob(1) by (simp add: owned_def)
  ultimately show ?thesis
    using ob len that [of ob ?ps] by blast
qed

lemma Tensor_dtor_exact:
  assumes "0 < sizeof_ptr L" "storage_inv L T m"
  shows "Tensor_dtor L T m =
           Inr (m\<lparr>heap := release (owned L T m) (heap m), frees := frees m @ owned L T m\<rparr>)"
proof -
  from assms(2) obtain ob ps where ob: "block_at (t T) m = Inr ob" "0 \<le> rows T"
    "length ob = nat (rows T) * sizeof_ptr L"
    "list_all (row_ok L (cols T) m) (outer_slots L (rows T) ob)"
    "ps = row_ptrs (outer_slots L (rows T) ob)" "length ps = nat (rows T)"
    "\<forall>k < length ps. ob ! (k * sizeof_ptr L) = Ptr (ps ! k)" "distinct (t T # ps)"
    "owned L T m = ps @ [t T]"
    by (rule storage_inv_outer)
  have tl: "t T < length (heap m)" "heap m ! t T = Some ob"
    using ob(1) by (simp_all add: block_at_Inr)
  have "delete_rows L T 0 m =
      Inr (m\<lparr>heap := release (drop (nat 0) ps) (heap m), frees := frees m @ drop (nat 0) ps\<rparr>)"
  proof (rule delete_rows_exact [OF assms(1)])
    show "rows T = int (length ps)" using ob(2,6) by simp
    show "length ob = length ps * sizeof_ptr L" using ob(3,6) by simp
    show "\<forall>p\<in>set (drop (nat 0) ps). p < length (heap m) \<and> heap m ! p \<noteq> None"
      using row_ok_live [OF ob(4)] ob(5) by simp
  qed (use tl ob in auto)
  then have dr: "delete_rows L T 0 m =
      Inr (m\<lparr>heap := release ps (heap m), frees := frees m @ ps\<rparr>)" by simp
  have "release ps (heap m) ! t T = heap m ! t T"
    using tl(1) ob(8) by (simp add: nth_release)
  then have "delete_arr (t T) (m\<lparr>heap := release ps (heap m), frees := frees m @ ps\<rparr>) =
      Inr (m\<lparr>heap := release (ps @ [t T]) (heap m), frees := frees m @ ps @ [t T]\<rparr>)"
    using tl by (simp add: delete_arr_def block_at_def length_release release_snoc)
  then show ?thesis
    using dr ob(9) by (simp add: Tensor_dtor_def)
qed

lemma storage_inv_call:
  assumes "layout_ok L" "storage_inv L T m" "0 \<le> r" "r < rows T" "0 \<le> c" "c < cols T"
  shows "\<exists>v. index2 L (t T) r c m = Inr v"
proof -
  have sp: "0 < sizeof_ptr L" "0 < sizeof_N L"
    using assms(1) by (simp_all add: layout_ok_def)
  from assms(2) obtain ob ps where ob: "block_at (t T) m = Inr ob" "0 \<le> rows T"
    "length ob = nat (rows T) * sizeof_ptr L"
    "list_all (row_ok L (cols T) m) (outer_slots L (rows T) ob)"
    "ps = row_ptrs (outer_slots L (rows T) ob)" "length ps = nat (rows T)"
    "\<forall>k < length ps. ob ! (k * sizeof_ptr L) = Ptr (ps ! k)" "distinct (t T # ps)"
    "owned L T m = ps @ [t T]"
    by (rule storage_inv_outer)
  have nr: "nat r < length ps" using assms(3,4) ob(6) by simp
  have pr: "ob ! (nat r * sizeof_ptr L) = Ptr (ps ! nat r)" using ob(7) nr by blast
  have fitp: "Suc (nat r) * sizeof_ptr L \<le> length ob"
    using ptr_fits [OF assms(3,4), of L] ob(3) by simp
  have ltp: "nat r * sizeof_ptr L < length ob" using sp(1) fitp by (rule fit_less)
  have lp: "load_ptr L (t T) r m = Inr (ps ! nat r)"
    using ob(1) pr assms(3) ltp fitp by (simp add: load_ptr_def load_def)
  have "ps ! nat r \<in> set ps" using nr by simp
  then have "Ptr (ps ! nat r) \<in> set (outer_slots L (rows T) ob)"
    using all_ptr_map [OF ob(4)] ob(5) by (metis image_eqI set_map)
  with ob(4) have "row_ok L (cols T) m (Ptr (ps ! nat r))" by (simp add: list_all_iff)
  then obtain rb where rb: "block_at (ps ! nat r) m = Inr rb" "elems_ok L (cols T) rb"
    by (auto simp: row_ok_def split: sum.splits)
  from rb(2) have cap: "nat (cols T) * sizeof_N L \<le> length rb"
    and all: "list_all (\<lambda>b. if b < nat (cols T) * sizeof_N L \<and> sizeof_N L dvd b
                       then is_val (rb ! b) else is_indet (rb ! b)) [0..<length rb]"
    by (simp_all add: elems_ok_def)
  have fit: "Suc (nat c) * sizeof_N L \<le> length rb"
    using assms(5,6) cap by (rule elem_fits)
  have lt: "nat c * sizeof_N L < length rb" using sp(2) fit by (rule fit_less)
  have "Suc (nat c) * sizeof_N L \<le> nat (cols T) * sizeof_N L"
    by (rule elem_fits [OF assms(5,6) le_refl])
  then have "nat c * sizeof_N L < nat (cols T) * sizeof_N L"
    using sp(2) by (intro fit_less)
  then have "is_val (rb ! (nat c * sizeof_N L))"
    using all lt by (simp add: list_all_iff)
  then obtain v where "rb ! (nat c * sizeof_N L) = Val v"
    by (auto simp: is_val_def split: cell.splits)
  then have "load_val L (ps ! nat r) c m = Inr v"
    using rb(1) assms(5) lt fit by (simp add: load_val_def load_def)
  with lp show ?thesis by (simp add: index2_def)
qed

lemma buffer_okD:
  assumes "buffer_ok L c x y m" "0 \<le> i" "i < x" "0 \<le> j" "j < y"
  shows "\<exists>a. index2 L c i j m = Inr a"
proof -
  have "i \<in> set [0..x - 1]" "j \<in> set [0..y - 1]" using assms by simp_all
  with assms(1) have "case index2 L c i j m of Inl e \<Rightarrow> False | Inr v \<Rightarrow> True"
    unfolding buffer_ok_def list_all_iff by blast
  then show ?thesis by (cases "index2 L c i j m") simp_all
qed

lemma vector_okD:
  assumes "vector_ok c x y" "0 \<le> i" "i < x" "0 \<le> j" "j < y"
  shows "\<exists>a. vec_at c i j = Inr a"
proof -
  have "i \<in> set [0..x - 1]" "j \<in> set [0..y - 1]" using assms by simp_all
  with assms(1) have "case vec_at c i j of Inl e \<Rightarrow> False | Inr v \<Rightarrow> True"
    unfolding vector_ok_def list_all_iff by blast
  then show ?thesis by (cases "vec_at c i j") simp_all
qed

lemma prefix_agreeD:
  assumes "prefix_agree f g x y" "0 \<le> i" "i < x" "0 \<le> j" "j < y"
  shows "f i j = g i j"
proof -
  have "i \<in> set [0..x - 1]" "j \<in> set [0..y - 1]" using assms by simp_all
  with assms(1) show ?thesis
    unfolding prefix_agree_def list_all_iff by blast
qed

text \<open>
  The preconditions with their quantifiers written out, and the spec's own precondition
  on a vector, which is stronger.
\<close>

lemma buffer_ok_iff:
  "buffer_ok L c x y m \<longleftrightarrow>
     (\<forall>i j. 0 \<le> i \<and> i < x \<and> 0 \<le> j \<and> j < y \<longrightarrow> (\<exists>a. index2 L c i j m = Inr a))"
proof
  assume "buffer_ok L c x y m"
  then show "\<forall>i j. 0 \<le> i \<and> i < x \<and> 0 \<le> j \<and> j < y \<longrightarrow> (\<exists>a. index2 L c i j m = Inr a)"
    using buffer_okD by blast
next
  assume r: "\<forall>i j. 0 \<le> i \<and> i < x \<and> 0 \<le> j \<and> j < y \<longrightarrow> (\<exists>a. index2 L c i j m = Inr a)"
  have "case index2 L c i j m of Inl e \<Rightarrow> False | Inr v \<Rightarrow> True"
    if "i \<in> set [0..x - 1]" "j \<in> set [0..y - 1]" for i j
  proof -
    from that r obtain a where "index2 L c i j m = Inr a" by auto
    then show ?thesis by simp
  qed
  then show "buffer_ok L c x y m"
    unfolding buffer_ok_def list_all_iff by blast
qed

lemma vector_ok_iff:
  "vector_ok c x y \<longleftrightarrow>
     (\<forall>i j. 0 \<le> i \<and> i < x \<and> 0 \<le> j \<and> j < y \<longrightarrow> (\<exists>a. vec_at c i j = Inr a))"
proof
  assume "vector_ok c x y"
  then show "\<forall>i j. 0 \<le> i \<and> i < x \<and> 0 \<le> j \<and> j < y \<longrightarrow> (\<exists>a. vec_at c i j = Inr a)"
    using vector_okD by blast
next
  assume r: "\<forall>i j. 0 \<le> i \<and> i < x \<and> 0 \<le> j \<and> j < y \<longrightarrow> (\<exists>a. vec_at c i j = Inr a)"
  have "case vec_at c i j of Inl e \<Rightarrow> False | Inr v \<Rightarrow> True"
    if "i \<in> set [0..x - 1]" "j \<in> set [0..y - 1]" for i j
  proof -
    from that r obtain a where "vec_at c i j = Inr a" by auto
    then show ?thesis by simp
  qed
  then show "vector_ok c x y"
    unfolding vector_ok_def list_all_iff by blast
qed

lemma vector_ok_spec:
  assumes "x \<le> int (length c)" "\<forall>k < nat x. y \<le> int (length (c ! k))"
  shows "vector_ok c x y"
  unfolding vector_ok_iff
proof (intro allI impI)
  fix i j assume ij: "0 \<le> i \<and> i < x \<and> 0 \<le> j \<and> j < y"
  then have "nat i < nat x" by simp
  with assms(2) have "y \<le> int (length (c ! nat i))" by blast
  then show "\<exists>a. vec_at c i j = Inr a"
    using ij assms(1) by (simp add: vec_at_def)
qed

text \<open>Outside the valid dimensions the allocation fails, for every constructor.\<close>

lemma construct_negative:
  "x < 0 \<Longrightarrow> construct L rhs x y m = Inl BadArrayNewLength"
  "0 < x \<Longrightarrow> y < 0 \<Longrightarrow> construct L rhs x y m = Inl BadArrayNewLength"
  by (simp_all add: construct_def new_arr_def fill_rows.simps)

text \<open>With no rows nothing but the empty outer block is allocated, whatever \<open>y\<close> is.\<close>

lemma construct_no_rows:
  "construct L rhs 0 y m =
     Inr (\<lparr>rows = 0, cols = y, t = length (heap m)\<rparr>, m\<lparr>heap := heap m @ [Some []]\<rparr>)"
  by (simp add: construct_def new_arr_def fill_rows.simps)

lemma narrow_fits:
  "sizeof_N L \<le> sizeof_ptr L \<Longrightarrow> nat y * sizeof_N L \<le> nat y * sizeof_ptr L"
  by (rule mult_le_mono2)

text \<open>The three constructors when the elements of a row fit into it.\<close>

lemma Tensor_empty_exact:
  assumes "layout_ok L" "0 \<le> x" "0 \<le> y" "nat y * sizeof_N L \<le> nat y * sizeof_ptr L"
  shows "Tensor_empty L x y m =
           Inr (\<lparr>rows = x, cols = y, t = length (heap m)\<rparr>,
                m\<lparr>heap := heap m @ [Some (outer_part L (length (heap m)) x x)] @
                             row_blocks L (\<lambda>i j. 0) y x\<rparr>)"
  unfolding Tensor_empty_def by (rule construct_exact) (use assms in auto)

lemma Tensor_ptrs_exact:
  fixes m :: "'n mem"
  assumes "layout_ok L" "0 \<le> x" "0 \<le> y" "nat y * sizeof_N L \<le> nat y * sizeof_ptr L"
    and "buffer_ok L c x y m"
  shows "Tensor_ptrs L x y c m =
           Inr (\<lparr>rows = x, cols = y, t = length (heap m)\<rparr>,
                m\<lparr>heap := heap m @ [Some (outer_part L (length (heap m)) x x)] @
                             row_blocks L (\<lambda>i j. projr (index2 L c i j m)) y x\<rparr>)"
  unfolding Tensor_ptrs_def
proof (rule construct_exact)
  fix i j and m' :: "'n mem"
  assume "0 \<le> i" "i < x" "0 \<le> j" "j < y" and pre: "take (length (heap m)) (heap m') = heap m"
  with assms(5) obtain a where a: "index2 L c i j m = Inr a"
    using buffer_okD by blast
  then have "index2 L c i j m' = Inr a" using pre by (rule index2_prefix)
  with a show "index2 L c i j m' = Inr (projr (index2 L c i j m))" by simp
qed (use assms in auto)

lemma Tensor_vector_exact:
  fixes m :: "'n mem"
  assumes "layout_ok L" "0 \<le> x" "0 \<le> y" "nat y * sizeof_N L \<le> nat y * sizeof_ptr L"
    and "vector_ok c x y"
  shows "Tensor_vector L x y c m =
           Inr (\<lparr>rows = x, cols = y, t = length (heap m)\<rparr>,
                m\<lparr>heap := heap m @ [Some (outer_part L (length (heap m)) x x)] @
                             row_blocks L (\<lambda>i j. projr (vec_at c i j)) y x\<rparr>)"
  unfolding Tensor_vector_def
proof (rule construct_exact)
  fix i j and m' :: "'n mem"
  assume "0 \<le> i" "i < x" "0 \<le> j" "j < y"
  with assms(5) obtain a where a: "vec_at c i j = Inr a"
    using vector_okD by blast
  then show "vec_at c i j = Inr (projr (vec_at c i j))" by simp
qed (use assms in auto)

text \<open>The three constructors when an element is wider than a pointer.\<close>

lemma Tensor_empty_overrun:
  assumes "layout_ok L" "0 < x" "0 < y" "sizeof_ptr L < sizeof_N L"
  shows "Tensor_empty L x y m = Inl OutOfBounds"
  unfolding Tensor_empty_def
  by (rule construct_overrun [where w = "\<lambda>j. 0"]) (use assms in auto)

lemma Tensor_ptrs_overrun:
  fixes m :: "'n mem"
  assumes "layout_ok L" "0 < x" "0 < y" "sizeof_ptr L < sizeof_N L" "buffer_ok L c x y m"
  shows "Tensor_ptrs L x y c m = Inl OutOfBounds"
  unfolding Tensor_ptrs_def
proof (rule construct_overrun [where w = "\<lambda>j. projr (index2 L c 0 j m)"])
  fix j and m' :: "'n mem"
  assume "0 \<le> j" "j < y" and pre: "take (length (heap m)) (heap m') = heap m"
  with assms(2,5) obtain a where a: "index2 L c 0 j m = Inr a"
    using buffer_okD [of L c x y m 0 j] by auto
  then have "index2 L c 0 j m' = Inr a" using pre by (rule index2_prefix)
  with a show "index2 L c 0 j m' = Inr (projr (index2 L c 0 j m))" by simp
qed (use assms in auto)

lemma Tensor_vector_overrun:
  fixes m :: "'n mem"
  assumes "layout_ok L" "0 < x" "0 < y" "sizeof_ptr L < sizeof_N L" "vector_ok c x y"
  shows "Tensor_vector L x y c m = Inl OutOfBounds"
  unfolding Tensor_vector_def
proof (rule construct_overrun [where w = "\<lambda>j. projr (vec_at c 0 j)"])
  fix j and m' :: "'n mem"
  assume "0 \<le> j" "j < y"
  with assms(2,5) obtain a where a: "vec_at c 0 j = Inr a"
    using vector_okD [of c x y 0 j] by auto
  then show "vec_at c 0 j = Inr (projr (vec_at c 0 j))" by simp
qed (use assms in auto)

lemma arr_part_cong:
  assumes "0 < s" "\<And>k. k < n \<Longrightarrow> F k = G k"
  shows "arr_part s F n cap = arr_part s G n cap"
proof -
  have "F (b div s) = G (b div s)" if "b < n * s" for b
  proof -
    have "b div s < n" using that assms(1) by (simp add: less_mult_imp_div_less)
    then show ?thesis by (rule assms(2))
  qed
  then show ?thesis by (simp add: arr_part_def)
qed

lemma row_blocks_cong:
  assumes "0 < sizeof_N L"
    and "\<And>i j. 0 \<le> i \<Longrightarrow> i < x \<Longrightarrow> 0 \<le> j \<Longrightarrow> j < y \<Longrightarrow> v i j = w i j"
  shows "row_blocks L v y x = row_blocks L w y x"
proof -
  have "row_part L (v i) y y = row_part L (w i) y y" if "0 \<le> i" "i < x" for i
    unfolding row_part_def
    by (rule arr_part_cong [OF assms(1)]) (use that assms(2) in auto)
  then show ?thesis by (simp add: row_blocks_def)
qed

lemma row_blocks_const:
  "0 \<le> x \<Longrightarrow> row_blocks L (\<lambda>i j. a) y x = replicate (nat x) (Some (row_part L (\<lambda>j. a) y y))"
  by (simp add: row_blocks_def map_replicate_const)

lemma outer_part_ptr_array:
  assumes "0 < sizeof_ptr L" "0 \<le> x"
  shows "outer_part L tp x x = ptr_array L (map (\<lambda>k. Suc (tp + k)) [0..<nat x])"
  unfolding outer_part_def ptr_array_def
  using arr_part_cong [OF assms(1), of "nat x" "\<lambda>k. Ptr (Suc (tp + k))"
      "\<lambda>k. Ptr (map (\<lambda>k. Suc (tp + k)) [0..<nat x] ! k)"]
  by simp

lemma built_owned:
  assumes "heap m = H @ [Some (outer_part L (length H) x x)] @ row_blocks L v y x"
    and "0 < sizeof_ptr L" "0 \<le> x"
  shows "owned L \<lparr>rows = x, cols = y, t = length H\<rparr> m =
           map (\<lambda>k. Suc (length H + k)) [0..<nat x] @ [length H]"
  using built_outer [OF assms(1)]
  by (simp add: owned_def outer_slots_built [OF assms(2,3)] row_ptrs_map_Ptr)

lemma built_release:
  assumes "heap m = H @ [Some (outer_part L (length H) x x)] @ row_blocks L v y x"
    and "0 < sizeof_ptr L" "0 \<le> x"
  shows "release (owned L \<lparr>rows = x, cols = y, t = length H\<rparr> m) (heap m) =
           H @ replicate (Suc (nat x)) None"
proof (rule nth_equalityI)
  let ?ow = "owned L \<lparr>rows = x, cols = y, t = length H\<rparr> m"
  show len: "length (release ?ow (heap m)) = length (H @ replicate (Suc (nat x)) None)"
    using assms(1,3) by (simp add: length_release length_row_blocks)
  fix k assume "k < length (release ?ow (heap m))"
  then have k: "k < length H + Suc (nat x)" using len by simp
  then have kh: "k < length (heap m)" using assms(1,3) by (simp add: length_row_blocks)
  have mem: "k \<in> set ?ow \<longleftrightarrow> length H \<le> k"
  proof
    assume "k \<in> set ?ow"
    then show "length H \<le> k" by (auto simp: built_owned [OF assms])
  next
    assume ge: "length H \<le> k"
    show "k \<in> set ?ow"
    proof (cases "k = length H")
      case True
      then show ?thesis by (simp add: built_owned [OF assms])
    next
      case False
      let ?i = "k - Suc (length H)"
      have "?i < nat x" "k = Suc (length H + ?i)"
        using ge False k by auto
      then show ?thesis
        unfolding built_owned [OF assms] by (auto simp: image_iff intro!: bexI [of _ ?i])
    qed
  qed
  show "release ?ow (heap m) ! k = (H @ replicate (Suc (nat x)) None) ! k"
  proof (cases "length H \<le> k")
    case True
    then have "replicate (Suc (nat x)) None ! (k - length H) = None"
      using k by (intro nth_replicate) simp
    then have "(H @ replicate (Suc (nat x)) None) ! k = None"
      using True by (simp add: nth_append del: replicate.simps)
    moreover have "release ?ow (heap m) ! k = None"
      using kh mem True by (simp add: nth_release)
    ultimately show ?thesis by simp
  next
    case False
    then show ?thesis
      using kh mem assms(1) by (simp add: nth_release nth_append)
  qed
qed

lemma built_dtor:
  assumes "heap m = H @ [Some (outer_part L (length H) x x)] @ row_blocks L v y x"
    and "layout_ok L" "0 \<le> x" "0 \<le> y" "nat y * sizeof_N L \<le> nat y * sizeof_ptr L"
  shows "Tensor_dtor L \<lparr>rows = x, cols = y, t = length H\<rparr> m =
           Inr (m\<lparr>heap := H @ replicate (Suc (nat x)) None,
                  frees := frees m @ map (\<lambda>k. Suc (length H + k)) [0..<nat x] @ [length H]\<rparr>)"
proof -
  let ?T = "\<lparr>rows = x, cols = y, t = length H\<rparr>"
  have sp: "0 < sizeof_ptr L" using assms(2) by (simp add: layout_ok_def)
  have r: "release (owned L ?T m) (heap m) = H @ replicate (Suc (nat x)) None"
    using assms(1) sp assms(3) by (rule built_release)
  have o: "owned L ?T m = map (\<lambda>k. Suc (length H + k)) [0..<nat x] @ [length H]"
    using assms(1) sp assms(3) by (rule built_owned)
  have "Tensor_dtor L ?T m =
      Inr (m\<lparr>heap := release (owned L ?T m) (heap m), frees := frees m @ owned L ?T m\<rparr>)"
    by (rule Tensor_dtor_exact [OF sp built_storage_inv [OF assms]])
  also have "\<dots> = Inr (m\<lparr>heap := H @ replicate (Suc (nat x)) None, frees := frees m @ owned L ?T m\<rparr>)"
    by (simp only: r)
  finally show ?thesis by (simp only: o)
qed

lemma storage_inv_after_dtor:
  assumes "storage_inv L T m"
  shows "\<not> storage_inv L T (m\<lparr>heap := release (owned L T m) (heap m), frees := frees m @ owned L T m\<rparr>)"
proof -
  from assms obtain ob where ob: "block_at (t T) m = Inr ob"
    by (auto simp: storage_inv_def split: sum.splits)
  have "t T < length (heap m)" using ob by (simp add: block_at_Inr)
  moreover have "t T \<in> set (owned L T m)" using ob by (simp add: owned_def)
  ultimately have "release (owned L T m) (heap m) ! t T = None"
    by (simp add: nth_release)
  then show ?thesis
    by (simp add: storage_inv_def block_at_def)
qed

text \<open>What a caller observes of a Tensor that was built: its shape and its elements.\<close>

lemma observe_built:
  assumes "heap m = H @ [Some (outer_part L (length H) x x)] @ row_blocks L v y x"
    and "layout_ok L" "nat y * sizeof_N L \<le> nat y * sizeof_ptr L"
  shows "observe L x y (Inr (\<lparr>rows = x, cols = y, t = length H\<rparr>, m)) =
           Inr (x, y, map (\<lambda>i. map (\<lambda>j. Inr (v i j)) [0..y - 1]) [0..x - 1])"
proof -
  have "(case Tensor_call L \<lparr>rows = x, cols = y, t = length H\<rparr> i j m of
           Inl e \<Rightarrow> Inl e | Inr (a, m') \<Rightarrow> Inr a) = Inr (v i j)"
    if "i \<in> set [0..x - 1]" "j \<in> set [0..y - 1]" for i j
    using built_call [OF assms, of i j] that by simp
  then show ?thesis by (simp add: observe_def cong: map_cong)
qed

lemma dtor_after_built:
  assumes "c = Inr (\<lparr>rows = x, cols = y, t = length (heap m)\<rparr>,
                    m\<lparr>heap := heap m @ [Some (outer_part L (length (heap m)) x x)] @ row_blocks L v y x\<rparr>)"
    and "layout_ok L" "0 \<le> x" "0 \<le> y" "nat y * sizeof_N L \<le> nat y * sizeof_ptr L"
  shows "\<exists>U m1 m2. c = Inr (U, m1) \<and> Tensor_dtor L U m1 = Inr m2
           \<and> heap m2 = heap m @ replicate (Suc (nat x)) None
           \<and> frees m2 = frees m @ map (\<lambda>k. Suc (length (heap m) + k)) [0..<nat x] @ [length (heap m)]"
proof -
  let ?m1 = "m\<lparr>heap := heap m @ [Some (outer_part L (length (heap m)) x x)] @ row_blocks L v y x\<rparr>"
  have "Tensor_dtor L \<lparr>rows = x, cols = y, t = length (heap m)\<rparr> ?m1 =
      Inr (?m1\<lparr>heap := heap m @ replicate (Suc (nat x)) None,
                frees := frees ?m1 @ map (\<lambda>k. Suc (length (heap m) + k)) [0..<nat x] @ [length (heap m)]\<rparr>)"
    by (rule built_dtor) (use assms in simp_all)
  then show ?thesis
    using assms(1) by (simp del: replicate.simps)
qed

text \<open>
  When an element is no wider than a pointer, constructing a Tensor and destroying it
  releases every block the constructor allocated, and touches no other.
\<close>

lemma construct_then_destroy:
  assumes "layout_ok L" "0 \<le> x" "0 \<le> y" "sizeof_N L \<le> sizeof_ptr L"
  shows "\<exists>U m1 m2. Tensor_empty L x y mz = Inr (U, m1) \<and> Tensor_dtor L U m1 = Inr m2
           \<and> heap m2 = heap mz @ replicate (Suc (nat x)) None
           \<and> frees m2 = frees mz @ map (\<lambda>k. Suc (length (heap mz) + k)) [0..<nat x] @ [length (heap mz)]"
    and "buffer_ok L content x y mb \<Longrightarrow>
         \<exists>U m1 m2. Tensor_ptrs L x y content mb = Inr (U, m1) \<and> Tensor_dtor L U m1 = Inr m2
           \<and> heap m2 = heap mb @ replicate (Suc (nat x)) None
           \<and> frees m2 = frees mb @ map (\<lambda>k. Suc (length (heap mb) + k)) [0..<nat x] @ [length (heap mb)]"
    and "vector_ok vcontent x y \<Longrightarrow>
         \<exists>U m1 m2. Tensor_vector L x y vcontent mb = Inr (U, m1) \<and> Tensor_dtor L U m1 = Inr m2
           \<and> heap m2 = heap mb @ replicate (Suc (nat x)) None
           \<and> frees m2 = frees mb @ map (\<lambda>k. Suc (length (heap mb) + k)) [0..<nat x] @ [length (heap mb)]"
proof -
  have fit: "nat y * sizeof_N L \<le> nat y * sizeof_ptr L" using assms(4) by (rule narrow_fits)
  show "\<exists>U m1 m2. Tensor_empty L x y mz = Inr (U, m1) \<and> Tensor_dtor L U m1 = Inr m2
           \<and> heap m2 = heap mz @ replicate (Suc (nat x)) None
           \<and> frees m2 = frees mz @ map (\<lambda>k. Suc (length (heap mz) + k)) [0..<nat x] @ [length (heap mz)]"
    by (intro dtor_after_built [OF Tensor_empty_exact]) (use assms fit in simp_all)
  show "\<exists>U m1 m2. Tensor_ptrs L x y content mb = Inr (U, m1) \<and> Tensor_dtor L U m1 = Inr m2
           \<and> heap m2 = heap mb @ replicate (Suc (nat x)) None
           \<and> frees m2 = frees mb @ map (\<lambda>k. Suc (length (heap mb) + k)) [0..<nat x] @ [length (heap mb)]"
    if "buffer_ok L content x y mb"
    by (intro dtor_after_built [OF Tensor_ptrs_exact]) (use assms fit that in simp_all)
  show "\<exists>U m1 m2. Tensor_vector L x y vcontent mb = Inr (U, m1) \<and> Tensor_dtor L U m1 = Inr m2
           \<and> heap m2 = heap mb @ replicate (Suc (nat x)) None
           \<and> frees m2 = frees mb @ map (\<lambda>k. Suc (length (heap mb) + k)) [0..<nat x] @ [length (heap mb)]"
    if "vector_ok vcontent x y"
    by (intro dtor_after_built [OF Tensor_vector_exact]) (use assms fit that in simp_all)
qed

text \<open>
  A row as \<^verbatim>\<open>new N*[cols]\<close> allocates it cannot be read at its last column when an
  element is wider than a pointer.
\<close>

lemma last_column_outside:
  assumes "sizeof_ptr L < sizeof_N L" "0 < cols T" "load_ptr L (t T) r m = Inr p"
    and "block_at p m = Inr rb" "length rb = nat (cols T) * sizeof_ptr L"
  shows "Tensor_call L T r (cols T - 1) m = Inl OutOfBounds"
proof -
  let ?j = "cols T - 1"
  have "nat ?j * sizeof_N L + sizeof_N L = nat (cols T) * sizeof_N L"
  proof -
    have "nat (cols T) = Suc (nat ?j)" using assms(2) by simp
    then show ?thesis by simp
  qed
  moreover have "nat (cols T) * sizeof_ptr L < nat (cols T) * sizeof_N L"
    using assms(1,2) by simp
  ultimately have "\<not> nat ?j * sizeof_N L + sizeof_N L \<le> length rb"
    using assms(5) by simp
  then have "load_val L p ?j m = Inl OutOfBounds"
    using assms(2,4) by (simp add: load_val_def load_def)
  then show ?thesis
    using assms(3) by (simp add: Tensor_call_def index2_def)
qed

lemma not_fits:
  assumes "\<not> nat y * sizeof_N L \<le> nat y * sizeof_ptr L"
  shows "0 < y" "sizeof_ptr L < sizeof_N L"
proof -
  show "0 < y"
  proof (rule ccontr)
    assume "\<not> 0 < y"
    then have "nat y = 0" by simp
    with assms show False by simp
  qed
  show "sizeof_ptr L < sizeof_N L"
  proof (rule ccontr)
    assume "\<not> sizeof_ptr L < sizeof_N L"
    then have "sizeof_N L \<le> sizeof_ptr L" by simp
    then have "nat y * sizeof_N L \<le> nat y * sizeof_ptr L" by (rule narrow_fits)
    with assms show False by simp
  qed
qed

lemma observe_no_rows:
  "observe L 0 y (Inr (\<lparr>rows = 0, cols = y, t = a\<rparr>, m)) = Inr (0, y, [])"
  by (simp add: observe_def)

lemma grid_cong:
  assumes "\<And>i j. 0 \<le> i \<Longrightarrow> i < x \<Longrightarrow> 0 \<le> j \<Longrightarrow> j < y \<Longrightarrow> f i j = g i j"
  shows "map (\<lambda>i. map (\<lambda>j. f i j) [0..y - 1]) [0..x - 1] = map (\<lambda>i. map (\<lambda>j. g i j) [0..y - 1]) [0..x - 1]"
  using assms by simp

lemma observe_Tensor_ptrs:
  fixes m :: "'n mem"
  assumes "layout_ok L" "0 \<le> x" "0 \<le> y" "nat y * sizeof_N L \<le> nat y * sizeof_ptr L"
    and "buffer_ok L c x y m"
  shows "observe L x y (Tensor_ptrs L x y c m) =
           Inr (x, y, map (\<lambda>i. map (\<lambda>j. index2 L c i j m) [0..y - 1]) [0..x - 1])"
proof -
  let ?v = "\<lambda>i j. projr (index2 L c i j m)"
  let ?m' = "m\<lparr>heap := heap m @ [Some (outer_part L (length (heap m)) x x)] @ row_blocks L ?v y x\<rparr>"
  have "observe L x y (Tensor_ptrs L x y c m) =
      observe L x y (Inr (\<lparr>rows = x, cols = y, t = length (heap m)\<rparr>, ?m'))"
    using Tensor_ptrs_exact [OF assms] by simp
  also have "\<dots> = Inr (x, y, map (\<lambda>i. map (\<lambda>j. Inr (?v i j)) [0..y - 1]) [0..x - 1])"
    by (rule observe_built) (use assms in simp_all)
  also have "map (\<lambda>i. map (\<lambda>j. (Inr (?v i j) :: error + 'n)) [0..y - 1]) [0..x - 1] =
      map (\<lambda>i. map (\<lambda>j. index2 L c i j m) [0..y - 1]) [0..x - 1]"
  proof (rule grid_cong)
    fix i j assume "0 \<le> i" "i < x" "0 \<le> j" "j < y"
    then obtain a where "index2 L c i j m = Inr a"
      using buffer_okD [OF assms(5)] by blast
    then show "Inr (?v i j) = index2 L c i j m" by simp
  qed
  finally show ?thesis .
qed

lemma observe_Tensor_vector:
  fixes m :: "'n mem"
  assumes "layout_ok L" "0 \<le> x" "0 \<le> y" "nat y * sizeof_N L \<le> nat y * sizeof_ptr L"
    and "vector_ok c x y"
  shows "observe L x y (Tensor_vector L x y c m) =
           Inr (x, y, map (\<lambda>i. map (\<lambda>j. vec_at c i j) [0..y - 1]) [0..x - 1])"
proof -
  let ?v = "\<lambda>i j. projr (vec_at c i j)"
  let ?m' = "m\<lparr>heap := heap m @ [Some (outer_part L (length (heap m)) x x)] @ row_blocks L ?v y x\<rparr>"
  have "observe L x y (Tensor_vector L x y c m) =
      observe L x y (Inr (\<lparr>rows = x, cols = y, t = length (heap m)\<rparr>, ?m'))"
    using Tensor_vector_exact [OF assms, of m] by simp
  also have "\<dots> = Inr (x, y, map (\<lambda>i. map (\<lambda>j. Inr (?v i j)) [0..y - 1]) [0..x - 1])"
    by (rule observe_built) (use assms in simp_all)
  also have "map (\<lambda>i. map (\<lambda>j. (Inr (?v i j) :: error + 'n)) [0..y - 1]) [0..x - 1] =
      map (\<lambda>i. map (\<lambda>j. vec_at c i j) [0..y - 1]) [0..x - 1]"
  proof (rule grid_cong)
    fix i j assume "0 \<le> i" "i < x" "0 \<le> j" "j < y"
    then obtain a where "vec_at c i j = Inr a"
      using vector_okD [OF assms(5)] by blast
    then show "Inr (?v i j) = vec_at c i j" by simp
  qed
  finally show ?thesis .
qed

section \<open>The claims\<close>

text \<open>
  Claim C1 says that a Tensor constructed from a pointer-to-pointers buffer or from a
  nested vector returns, at every in-bounds position \<open>(i, j)\<close>, the value the source held
  at \<open>(i, j)\<close>. The constructors allocate each row as \<open>cols\<close> pointers and store
  \<open>cols\<close> elements in it. When an element is no wider than a pointer and the source is
  readable on its \<open>x \<times> y\<close> prefix, the claim holds: the constructor succeeds, and the
  call operator on the new Tensor gives the source's value. When an element is wider than
  a pointer, every such construction writes past the end of its first row.
\<close>

theorem copy_constructors_by_element_size:
  assumes "layout_ok L" "0 \<le> i" "i < x" "0 \<le> j" "j < y"
  shows "(sizeof_N L \<le> sizeof_ptr L \<and> buffer_ok L content x y m \<longrightarrow>
            (\<exists>T m' a. Tensor_ptrs L x y content m = Inr (T, m') \<and> index2 L content i j m = Inr a
                \<and> Tensor_call L T i j m' = Inr (a, m')))
       \<and> (sizeof_N L \<le> sizeof_ptr L \<and> vector_ok vcontent x y \<longrightarrow>
            (\<exists>T m' a. Tensor_vector L x y vcontent m = Inr (T, m') \<and> vec_at vcontent i j = Inr a
                \<and> Tensor_call L T i j m' = Inr (a, m')))
       \<and> (sizeof_ptr L < sizeof_N L \<and> buffer_ok L content x y m \<longrightarrow>
            Tensor_ptrs L x y content m = Inl OutOfBounds)
       \<and> (sizeof_ptr L < sizeof_N L \<and> vector_ok vcontent x y \<longrightarrow>
            Tensor_vector L x y vcontent m = Inl OutOfBounds)"
proof (intro conjI impI)
  have xy: "0 \<le> x" "0 \<le> y" "0 < x" "0 < y" using assms by simp_all
  {
    assume h: "sizeof_N L \<le> sizeof_ptr L \<and> buffer_ok L content x y m"
    then have fit: "nat y * sizeof_N L \<le> nat y * sizeof_ptr L" by (simp add: narrow_fits)
    let ?v = "\<lambda>i j. projr (index2 L content i j m)"
    let ?T = "\<lparr>rows = x, cols = y, t = length (heap m)\<rparr>"
    let ?m' = "m\<lparr>heap := heap m @ [Some (outer_part L (length (heap m)) x x)] @ row_blocks L ?v y x\<rparr>"
    have c: "Tensor_ptrs L x y content m = Inr (?T, ?m')"
      using assms(1) xy(1,2) fit h by (intro Tensor_ptrs_exact) simp_all
    have "Tensor_call L ?T i j ?m' = Inr (?v i j, ?m')"
      by (rule built_call) (use assms fit in simp_all)
    moreover obtain a where "index2 L content i j m = Inr a"
      using buffer_okD [OF _ assms(2-5)] h by blast
    ultimately show "\<exists>T m' a. Tensor_ptrs L x y content m = Inr (T, m') \<and> index2 L content i j m = Inr a
        \<and> Tensor_call L T i j m' = Inr (a, m')"
      using c by simp
  }
  {
    assume h: "sizeof_N L \<le> sizeof_ptr L \<and> vector_ok vcontent x y"
    then have fit: "nat y * sizeof_N L \<le> nat y * sizeof_ptr L" by (simp add: narrow_fits)
    let ?v = "\<lambda>i j. projr (vec_at vcontent i j)"
    let ?T = "\<lparr>rows = x, cols = y, t = length (heap m)\<rparr>"
    let ?m' = "m\<lparr>heap := heap m @ [Some (outer_part L (length (heap m)) x x)] @ row_blocks L ?v y x\<rparr>"
    have c: "Tensor_vector L x y vcontent m = Inr (?T, ?m')"
      using assms(1) xy(1,2) fit h by (intro Tensor_vector_exact) simp_all
    have "Tensor_call L ?T i j ?m' = Inr (?v i j, ?m')"
      by (rule built_call) (use assms fit in simp_all)
    moreover obtain a where "vec_at vcontent i j = Inr a"
      using vector_okD [OF _ assms(2-5)] h by blast
    ultimately show "\<exists>T m' a. Tensor_vector L x y vcontent m = Inr (T, m') \<and> vec_at vcontent i j = Inr a
        \<and> Tensor_call L T i j m' = Inr (a, m')"
      using c by simp
  }
  {
    assume "sizeof_ptr L < sizeof_N L \<and> buffer_ok L content x y m"
    then show "Tensor_ptrs L x y content m = Inl OutOfBounds"
      using assms(1) xy(3,4) by (intro Tensor_ptrs_overrun) simp_all
  }
  {
    assume "sizeof_ptr L < sizeof_N L \<and> vector_ok vcontent x y"
    then show "Tensor_vector L x y vcontent m = Inl OutOfBounds"
      using assms(1) xy(3,4) by (intro Tensor_vector_overrun) simp_all
  }
qed

theorem copy_constructors_by_element_size_witness:
  "layout_ok lp64_int \<and> buffer_ok lp64_int 0 2 3 (buffer_mem lp64_int)
   \<and> index2 lp64_int 0 1 1 (buffer_mem lp64_int) = Inr 5
   \<and> (\<exists>T m'. Tensor_ptrs lp64_int 2 3 0 (buffer_mem lp64_int) = Inr (T, m')
         \<and> Tensor_call lp64_int T 1 1 m' = Inr (5, m'))
   \<and> vector_ok [[7], [8::int]] 2 1 \<and> vec_at [[7], [8::int]] 1 0 = Inr 8
   \<and> (\<exists>T m'. Tensor_vector lp64_int 2 1 [[7], [8]] empty_mem = Inr (T, m')
         \<and> Tensor_call lp64_int T 1 0 m' = Inr (8, m'))
   \<and> layout_ok lp64_long_double \<and> buffer_ok lp64_long_double 0 1 1 (buffer_mem lp64_long_double)
   \<and> Tensor_ptrs lp64_long_double 1 1 0 (buffer_mem lp64_long_double) = Inl OutOfBounds
   \<and> vector_ok [[7::int]] 1 1
   \<and> Tensor_vector lp64_long_double 1 1 [[7]] empty_mem = Inl OutOfBounds"
proof -
  have l: "layout_ok lp64_int" "sizeof_N lp64_int \<le> sizeof_ptr lp64_int" by code_simp+
  have b: "buffer_ok lp64_int 0 2 3 (buffer_mem lp64_int)" by code_simp
  have bv: "index2 lp64_int 0 1 1 (buffer_mem lp64_int) = Inr 5" by code_simp
  have v: "vector_ok [[7], [8::int]] 2 1" by code_simp
  have vv: "vec_at [[7], [8::int]] 1 0 = Inr 8" by code_simp
  have ld: "layout_ok lp64_long_double" "sizeof_ptr lp64_long_double < sizeof_N lp64_long_double"
    by code_simp+
  have bd: "buffer_ok lp64_long_double 0 1 1 (buffer_mem lp64_long_double)" by code_simp
  have vd: "vector_ok [[7::int]] 1 1" by code_simp
  have "\<exists>T m' a. Tensor_ptrs lp64_int 2 3 0 (buffer_mem lp64_int) = Inr (T, m')
      \<and> index2 lp64_int 0 1 1 (buffer_mem lp64_int) = Inr a
      \<and> Tensor_call lp64_int T 1 1 m' = Inr (a, m')"
    using copy_constructors_by_element_size [OF l(1), where i = 1 and x = 2 and j = 1 and y = 3
        and content = 0 and m = "buffer_mem lp64_int"] l(2) b by simp
  then have p1: "\<exists>T m'. Tensor_ptrs lp64_int 2 3 0 (buffer_mem lp64_int) = Inr (T, m')
      \<and> Tensor_call lp64_int T 1 1 m' = Inr (5, m')"
    using bv by auto
  have "\<exists>T m' a. Tensor_vector lp64_int 2 1 [[7], [8]] empty_mem = Inr (T, m')
      \<and> vec_at [[7], [8::int]] 1 0 = Inr a \<and> Tensor_call lp64_int T 1 0 m' = Inr (a, m')"
    using copy_constructors_by_element_size [OF l(1), where i = 1 and x = 2 and j = 0 and y = 1
        and vcontent = "[[7], [8]]" and m = empty_mem] l(2) v by simp
  then have p2: "\<exists>T m'. Tensor_vector lp64_int 2 1 [[7], [8]] empty_mem = Inr (T, m')
      \<and> Tensor_call lp64_int T 1 0 m' = Inr (8, m')"
    using vv by auto
  have n1: "Tensor_ptrs lp64_long_double 1 1 0 (buffer_mem lp64_long_double) = Inl OutOfBounds"
    using copy_constructors_by_element_size [OF ld(1), where i = 0 and x = 1 and j = 0 and y = 1
        and content = 0 and m = "buffer_mem lp64_long_double"] ld(2) bd by simp
  have n2: "Tensor_vector lp64_long_double 1 1 [[7]] empty_mem = Inl OutOfBounds"
    using copy_constructors_by_element_size [OF ld(1), where i = 0 and x = 1 and j = 0 and y = 1
        and vcontent = "[[7]]" and m = empty_mem] ld(2) vd by simp
  show ?thesis using l(1) b bv v vv ld(1) bd vd p1 p2 n1 n2 by blast
qed

text \<open>
  Claim C2 says that the constructor for the empty Tensor writes the zero of \<open>N\<close> into
  every element. When an element is no wider than a pointer it does, for dimensions
  \<open>x, y \<ge> 0\<close>: the heap gains the outer block of \<open>x\<close> pointers and \<open>x\<close> rows, each
  \<open>y\<close> pointers wide and holding \<open>y\<close> zeros, and the call operator returns \<open>0\<close> at
  every in-bounds position. When an element is wider than a pointer and there is a row
  and a column, the constructor writes past the end of its first row.
\<close>

theorem default_constructor_by_element_size:
  assumes "layout_ok L" "0 \<le> x" "0 \<le> y"
  shows "(sizeof_N L \<le> sizeof_ptr L \<longrightarrow>
          (\<exists>T m'. Tensor_empty L x y m = Inr (T, m') \<and> rows T = x \<and> cols T = y
             \<and> heap m' = heap m @ [Some (ptr_array L (map (\<lambda>k. Suc (length (heap m) + k)) [0..<nat x]))]
                            @ replicate (nat x) (Some (row_part L (\<lambda>j. 0) y y))
             \<and> (\<forall>i j. 0 \<le> i \<and> i < x \<and> 0 \<le> j \<and> j < y \<longrightarrow> Tensor_call L T i j m' = Inr (0, m'))))
       \<and> (sizeof_ptr L < sizeof_N L \<and> 0 < x \<and> 0 < y \<longrightarrow> Tensor_empty L x y m = Inl OutOfBounds)"
proof (intro conjI impI)
  assume "sizeof_N L \<le> sizeof_ptr L"
  then have fit: "nat y * sizeof_N L \<le> nat y * sizeof_ptr L" by (rule narrow_fits)
  have sp: "0 < sizeof_ptr L" using assms(1) by (simp add: layout_ok_def)
  let ?T = "\<lparr>rows = x, cols = y, t = length (heap m)\<rparr>"
  let ?h = "heap m @ [Some (outer_part L (length (heap m)) x x)] @ row_blocks L (\<lambda>i j. 0) y x"
  let ?m' = "m\<lparr>heap := ?h\<rparr>"
  have c: "Tensor_empty L x y m = Inr (?T, ?m')"
    using assms fit by (rule Tensor_empty_exact)
  have h: "?h = heap m @ [Some (ptr_array L (map (\<lambda>k. Suc (length (heap m) + k)) [0..<nat x]))]
                            @ replicate (nat x) (Some (row_part L (\<lambda>j. 0) y y))"
    using assms(2) by (simp only: outer_part_ptr_array [OF sp assms(2)] row_blocks_const)
  have "Tensor_call L ?T i j ?m' = Inr (0, ?m')"
    if "0 \<le> i \<and> i < x \<and> 0 \<le> j \<and> j < y" for i j
    by (rule built_call [where v = "\<lambda>i j. 0"]) (use that assms(1) fit in simp_all)
  then show "\<exists>T m'. Tensor_empty L x y m = Inr (T, m') \<and> rows T = x \<and> cols T = y
             \<and> heap m' = heap m @ [Some (ptr_array L (map (\<lambda>k. Suc (length (heap m) + k)) [0..<nat x]))]
                            @ replicate (nat x) (Some (row_part L (\<lambda>j. 0) y y))
             \<and> (\<forall>i j. 0 \<le> i \<and> i < x \<and> 0 \<le> j \<and> j < y \<longrightarrow> Tensor_call L T i j m' = Inr (0, m'))"
    using c h by simp
next
  assume "sizeof_ptr L < sizeof_N L \<and> 0 < x \<and> 0 < y"
  then show "Tensor_empty L x y m = Inl OutOfBounds"
    using assms(1) by (intro Tensor_empty_overrun) simp_all
qed

theorem default_constructor_by_element_size_witness:
  "layout_ok lp64_int
   \<and> (\<exists>T m'. Tensor_empty lp64_int 2 3 empty_mem = Inr (T, m')
        \<and> heap m' = [Some (ptr_array lp64_int [1, 2]), Some (row_part lp64_int (\<lambda>j. 0) 3 3),
                     Some (row_part lp64_int (\<lambda>j. 0) 3 3)]
        \<and> list_all (\<lambda>(i, j). Tensor_call lp64_int T i j m' = Inr (0, m'))
             [(0, 0), (0, 1), (0, 2), (1, 0), (1, 1), (1, 2)])
   \<and> layout_ok lp64_long_double
   \<and> Tensor_empty lp64_long_double 1 1 empty_mem = Inl OutOfBounds"
proof -
  have l: "layout_ok lp64_int" "sizeof_N lp64_int \<le> sizeof_ptr lp64_int" by code_simp+
  have ld: "layout_ok lp64_long_double" "sizeof_ptr lp64_long_double < sizeof_N lp64_long_double"
    by code_simp+
  obtain T m' where c: "Tensor_empty lp64_int 2 3 empty_mem = Inr (T, m')"
      and h: "heap m' = heap empty_mem @ [Some (ptr_array lp64_int (map (\<lambda>k. Suc (length (heap empty_mem) + k)) [0..<nat 2]))]
                            @ replicate (nat 2) (Some (row_part lp64_int (\<lambda>j. 0) 3 3))"
      and z: "\<forall>i j. 0 \<le> i \<and> i < 2 \<and> 0 \<le> j \<and> j < 3 \<longrightarrow> Tensor_call lp64_int T i j m' = Inr (0, m')"
    using default_constructor_by_element_size [OF l(1), of 2 3 empty_mem] l(2) by auto
  have "heap empty_mem @ [Some (ptr_array lp64_int (map (\<lambda>k. Suc (length (heap empty_mem) + k)) [0..<nat 2]))]
                            @ replicate (nat 2) (Some (row_part lp64_int (\<lambda>j. 0) 3 3))
      = [Some (ptr_array lp64_int [1, 2]), Some (row_part lp64_int (\<lambda>j. (0::int)) 3 3),
                     Some (row_part lp64_int (\<lambda>j. 0) 3 3)]"
    by code_simp
  with h have h': "heap m' = [Some (ptr_array lp64_int [1, 2]), Some (row_part lp64_int (\<lambda>j. 0) 3 3),
                     Some (row_part lp64_int (\<lambda>j. 0) 3 3)]" by simp
  have g: "list_all (\<lambda>(i, j). Tensor_call lp64_int T i j m' = Inr (0, m'))
          [(0, 0), (0, 1), (0, 2), (1, 0), (1, 1), (1, 2)]"
    using z by simp
  have n: "Tensor_empty lp64_long_double 1 1 empty_mem = Inl OutOfBounds"
    using default_constructor_by_element_size [OF ld(1), of 1 1 empty_mem] ld(2) by simp
  show ?thesis using l(1) ld(1) c h' g n by blast
qed

text \<open>
  Claim C3 says that \<open>Size()\<close> returns the pair \<open>(rows, cols)\<close> by value. The code
  returns the address of its local array \<open>s\<close>, and the array is gone when the call
  returns: whatever Tensor and memory \<open>size\<close> is called with, reading any index through
  the returned pointer afterwards is a read through a dangling pointer.
\<close>

theorem size_returns_dangling_pointer:
  "read_local (fst (Tensor_size T m)) k (snd (Tensor_size T m)) = Inl DanglingPointer"
  by (simp add: Tensor_size_def read_local_def Let_def)

text \<open>
  Claim C4. The two examples of the spec, for \<open>N = int\<close> with 8-byte and with 4-byte
  pointers: the Tensor constructed from the buffer \<^verbatim>\<open>{{1,2,3},{4,5,6}}\<close> with 2 rows
  and 3 columns has 6 at \<open>(1, 2)\<close>; the Tensor constructed from the vector
  \<^verbatim>\<open>[[7],[8]]\<close> with 2 rows and 1 column has 7 at \<open>(0, 0)\<close> and 8 at \<open>(1, 0)\<close>.
\<close>

theorem spec_examples:
  "(case Tensor_ptrs lp64_int 2 3 0 (buffer_mem lp64_int) of
      Inl e \<Rightarrow> False
    | Inr (T, m') \<Rightarrow> Tensor_call lp64_int T 1 2 m' = Inr (6, m'))
   \<and> (case Tensor_vector lp64_int 2 1 [[7], [8]] empty_mem of
      Inl e \<Rightarrow> False
    | Inr (T, m') \<Rightarrow> Tensor_call lp64_int T 0 0 m' = Inr (7, m')
                      \<and> Tensor_call lp64_int T 1 0 m' = Inr (8, m'))
   \<and> (case Tensor_ptrs ilp32_int 2 3 0 (buffer_mem ilp32_int) of
      Inl e \<Rightarrow> False
    | Inr (T, m') \<Rightarrow> Tensor_call ilp32_int T 1 2 m' = Inr (6, m'))
   \<and> (case Tensor_vector ilp32_int 2 1 [[7], [8]] empty_mem of
      Inl e \<Rightarrow> False
    | Inr (T, m') \<Rightarrow> Tensor_call ilp32_int T 0 0 m' = Inr (7, m')
                      \<and> Tensor_call ilp32_int T 1 0 m' = Inr (8, m'))"
  by code_simp

text \<open>
  Claim C5 says that the storage invariant holds from the end of each of the three
  constructors until destruction. When an element is no wider than a pointer, each
  constructor, called with dimensions \<open>x, y \<ge> 0\<close> (and a readable source), succeeds
  with a Tensor of that shape whose outer block is exactly \<open>rows\<close> pointers, each to a
  row that holds exactly \<open>cols\<close> elements. For every layout, \<open>size\<close> and the call
  operator preserve the invariant and the destructor ends it. When an element is wider
  than a pointer and there is a row and a column, no constructor establishes the
  invariant: each writes past the end of its first row.
\<close>

theorem storage_invariant_by_element_size:
  assumes "layout_ok L" "0 \<le> x" "0 \<le> y"
  shows "(sizeof_N L \<le> sizeof_ptr L \<longrightarrow>
          (\<exists>T m'. Tensor_empty L x y mz = Inr (T, m') \<and> rows T = x \<and> cols T = y \<and> storage_inv L T m'))
     \<and> (sizeof_N L \<le> sizeof_ptr L \<and> buffer_ok L content x y m \<longrightarrow>
          (\<exists>T m'. Tensor_ptrs L x y content m = Inr (T, m') \<and> rows T = x \<and> cols T = y \<and> storage_inv L T m'))
     \<and> (sizeof_N L \<le> sizeof_ptr L \<and> vector_ok vcontent x y \<longrightarrow>
          (\<exists>T m'. Tensor_vector L x y vcontent m = Inr (T, m') \<and> rows T = x \<and> cols T = y \<and> storage_inv L T m'))
     \<and> (storage_inv L U mu \<longrightarrow> storage_inv L U (snd (Tensor_size U mu)))
     \<and> (storage_inv L U mu \<and> Tensor_call L U r c mu = Inr (v, mu') \<longrightarrow> storage_inv L U mu')
     \<and> (storage_inv L U mu \<longrightarrow> (\<exists>mu'. Tensor_dtor L U mu = Inr mu' \<and> \<not> storage_inv L U mu'))
     \<and> (sizeof_ptr L < sizeof_N L \<and> 0 < x \<and> 0 < y \<longrightarrow> Tensor_empty L x y mz = Inl OutOfBounds)
     \<and> (sizeof_ptr L < sizeof_N L \<and> 0 < x \<and> 0 < y \<and> buffer_ok L content x y m \<longrightarrow>
          Tensor_ptrs L x y content m = Inl OutOfBounds)
     \<and> (sizeof_ptr L < sizeof_N L \<and> 0 < x \<and> 0 < y \<and> vector_ok vcontent x y \<longrightarrow>
          Tensor_vector L x y vcontent m = Inl OutOfBounds)"
proof (intro conjI impI)
  have sp: "0 < sizeof_ptr L" using assms(1) by (simp add: layout_ok_def)
  {
    assume "sizeof_N L \<le> sizeof_ptr L"
    then have fit: "nat y * sizeof_N L \<le> nat y * sizeof_ptr L" by (rule narrow_fits)
    show "\<exists>T m'. Tensor_empty L x y mz = Inr (T, m') \<and> rows T = x \<and> cols T = y \<and> storage_inv L T m'"
      using Tensor_empty_exact [OF assms fit, of mz]
        built_storage_inv [where H = "heap mz" and v = "\<lambda>i j. 0", OF _ assms fit]
      by simp
  }
  {
    assume h: "sizeof_N L \<le> sizeof_ptr L \<and> buffer_ok L content x y m"
    then have fit: "nat y * sizeof_N L \<le> nat y * sizeof_ptr L" by (simp add: narrow_fits)
    show "\<exists>T m'. Tensor_ptrs L x y content m = Inr (T, m') \<and> rows T = x \<and> cols T = y \<and> storage_inv L T m'"
      using Tensor_ptrs_exact [OF assms fit, of content m] h
        built_storage_inv [where H = "heap m" and v = "\<lambda>i j. projr (index2 L content i j m)", OF _ assms fit]
      by simp
  }
  {
    assume h: "sizeof_N L \<le> sizeof_ptr L \<and> vector_ok vcontent x y"
    then have fit: "nat y * sizeof_N L \<le> nat y * sizeof_ptr L" by (simp add: narrow_fits)
    show "\<exists>T m'. Tensor_vector L x y vcontent m = Inr (T, m') \<and> rows T = x \<and> cols T = y \<and> storage_inv L T m'"
      using Tensor_vector_exact [OF assms fit, of vcontent m] h
        built_storage_inv [where H = "heap m" and v = "\<lambda>i j. projr (vec_at vcontent i j)", OF _ assms fit]
      by simp
  }
  {
    assume "storage_inv L U mu"
    then show "storage_inv L U (snd (Tensor_size U mu))"
      by (simp add: Tensor_size_def Let_def)
  }
  {
    assume "storage_inv L U mu \<and> Tensor_call L U r c mu = Inr (v, mu')"
    then show "storage_inv L U mu'"
      by (auto simp: Tensor_call_def split: sum.splits)
  }
  {
    assume "storage_inv L U mu"
    then show "\<exists>mu'. Tensor_dtor L U mu = Inr mu' \<and> \<not> storage_inv L U mu'"
      using Tensor_dtor_exact [OF sp, of U mu] storage_inv_after_dtor [of L U mu] by simp
  }
  {
    assume "sizeof_ptr L < sizeof_N L \<and> 0 < x \<and> 0 < y"
    then show "Tensor_empty L x y mz = Inl OutOfBounds"
      using assms(1) by (intro Tensor_empty_overrun) simp_all
  }
  {
    assume "sizeof_ptr L < sizeof_N L \<and> 0 < x \<and> 0 < y \<and> buffer_ok L content x y m"
    then show "Tensor_ptrs L x y content m = Inl OutOfBounds"
      using assms(1) by (intro Tensor_ptrs_overrun) simp_all
  }
  {
    assume "sizeof_ptr L < sizeof_N L \<and> 0 < x \<and> 0 < y \<and> vector_ok vcontent x y"
    then show "Tensor_vector L x y vcontent m = Inl OutOfBounds"
      using assms(1) by (intro Tensor_vector_overrun) simp_all
  }
qed

theorem storage_invariant_by_element_size_witness:
  "layout_ok lp64_int \<and> buffer_ok lp64_int 0 2 3 (buffer_mem lp64_int)
   \<and> vector_ok [[7], [8::int]] 2 1
   \<and> (\<exists>T m'. Tensor_empty lp64_int 2 3 empty_mem = Inr (T, m') \<and> rows T = 2 \<and> cols T = 3
         \<and> storage_inv lp64_int T m')
   \<and> (\<exists>T m'. Tensor_ptrs lp64_int 2 3 0 (buffer_mem lp64_int) = Inr (T, m') \<and> rows T = 2 \<and> cols T = 3
         \<and> storage_inv lp64_int T m')
   \<and> (\<exists>T m'. Tensor_vector lp64_int 2 1 [[7], [8]] empty_mem = Inr (T, m') \<and> rows T = 2 \<and> cols T = 1
         \<and> storage_inv lp64_int T m')
   \<and> Tensor_empty lp64_int 2 3 empty_mem = Inr (built_tensor, built_mem)
   \<and> storage_inv lp64_int built_tensor built_mem
   \<and> storage_inv lp64_int built_tensor (snd (Tensor_size built_tensor built_mem))
   \<and> Tensor_call lp64_int built_tensor 1 2 built_mem = Inr (0, built_mem)
   \<and> (\<exists>mu'. Tensor_dtor lp64_int built_tensor built_mem = Inr mu'
         \<and> \<not> storage_inv lp64_int built_tensor mu')
   \<and> layout_ok lp64_long_double
   \<and> buffer_ok lp64_long_double 0 1 1 (buffer_mem lp64_long_double) \<and> vector_ok [[7::int]] 1 1
   \<and> Tensor_empty lp64_long_double 1 1 empty_mem = Inl OutOfBounds
   \<and> Tensor_ptrs lp64_long_double 1 1 0 (buffer_mem lp64_long_double) = Inl OutOfBounds
   \<and> Tensor_vector lp64_long_double 1 1 [[7]] empty_mem = Inl OutOfBounds"
proof -
  have l: "layout_ok lp64_int" "sizeof_N lp64_int \<le> sizeof_ptr lp64_int" by code_simp+
  have b: "buffer_ok lp64_int 0 2 3 (buffer_mem lp64_int)" by code_simp
  have v: "vector_ok [[7], [8::int]] 2 1" by code_simp
  have e: "Tensor_empty lp64_int 2 3 empty_mem = Inr (built_tensor, built_mem)" by code_simp
  have s: "storage_inv lp64_int built_tensor built_mem" by code_simp
  have c: "Tensor_call lp64_int built_tensor 1 2 built_mem = Inr (0, built_mem)" by code_simp
  have ld: "layout_ok lp64_long_double" "sizeof_ptr lp64_long_double < sizeof_N lp64_long_double"
    by code_simp+
  have bd: "buffer_ok lp64_long_double 0 1 1 (buffer_mem lp64_long_double)" by code_simp
  have vd: "vector_ok [[7::int]] 1 1" by code_simp
  have A: "(\<exists>T m'. Tensor_empty lp64_int 2 3 empty_mem = Inr (T, m') \<and> rows T = 2 \<and> cols T = 3
         \<and> storage_inv lp64_int T m')
      \<and> (\<exists>T m'. Tensor_ptrs lp64_int 2 3 0 (buffer_mem lp64_int) = Inr (T, m') \<and> rows T = 2 \<and> cols T = 3
         \<and> storage_inv lp64_int T m')
      \<and> storage_inv lp64_int built_tensor (snd (Tensor_size built_tensor built_mem))
      \<and> storage_inv lp64_int built_tensor built_mem
      \<and> (\<exists>mu'. Tensor_dtor lp64_int built_tensor built_mem = Inr mu'
         \<and> \<not> storage_inv lp64_int built_tensor mu')"
    using l(2) b s c
      storage_invariant_by_element_size [OF l(1), where x = 2 and y = 3 and mz = empty_mem
        and content = 0 and m = "buffer_mem lp64_int" and U = built_tensor and mu = built_mem
        and vcontent = "[]" and r = 1 and c = 2 and v = 0 and mu' = built_mem]
    by simp
  have B: "\<exists>T m'. Tensor_vector lp64_int 2 1 [[7], [8]] empty_mem = Inr (T, m') \<and> rows T = 2 \<and> cols T = 1
         \<and> storage_inv lp64_int T m'"
    using l(2) v
      storage_invariant_by_element_size [OF l(1), where x = 2 and y = 1 and mz = empty_mem
        and content = 0 and m = empty_mem and U = built_tensor and mu = built_mem
        and vcontent = "[[7], [8]]" and r = 1 and c = 2 and v = 0 and mu' = built_mem]
    by simp
  have N: "Tensor_empty lp64_long_double 1 1 empty_mem = Inl OutOfBounds
      \<and> Tensor_ptrs lp64_long_double 1 1 0 (buffer_mem lp64_long_double) = Inl OutOfBounds
      \<and> Tensor_vector lp64_long_double 1 1 [[7]] empty_mem = Inl OutOfBounds"
    using ld(2) bd vd
      storage_invariant_by_element_size [OF ld(1), where x = 1 and y = 1 and mz = empty_mem
        and content = 0 and m = "buffer_mem lp64_long_double" and U = built_tensor and mu = built_mem
        and vcontent = "[[7]]" and r = 1 and c = 2 and v = 0 and mu' = built_mem]
      storage_invariant_by_element_size [OF ld(1), where x = 1 and y = 1 and mz = empty_mem
        and content = 0 and m = empty_mem and U = built_tensor and mu = built_mem
        and vcontent = "[[7]]" and r = 1 and c = 2 and v = 0 and mu' = built_mem]
    by simp
  show ?thesis using l(1) b v e s c ld(1) bd vd A B N by blast
qed

text \<open>
  Claim C6 says that the call operator with \<open>0 \<le> r < rows\<close> and \<open>0 \<le> c < cols\<close> stays
  within the allocated storage. For a Tensor whose storage invariant holds it does: both
  index operations of \<^verbatim>\<open>t[x][y]\<close> stay inside live blocks and read a written element.
  But a row is allocated as \<open>cols\<close> pointers: when an element is wider than a pointer,
  reading the last column of such a row, an in-bounds index, leaves the block.
\<close>

theorem element_access_by_element_size:
  assumes "layout_ok L" "0 \<le> r" "r < rows T" "0 \<le> c" "c < cols T"
  shows "(storage_inv L T m \<longrightarrow> (\<exists>v. Tensor_call L T r c m = Inr (v, m)))
     \<and> (sizeof_ptr L < sizeof_N L \<and> load_ptr L (t T) r m = Inr p \<and> block_at p m = Inr rb
          \<and> length rb = nat (cols T) * sizeof_ptr L \<longrightarrow>
        Tensor_call L T r (cols T - 1) m = Inl OutOfBounds)"
proof (intro conjI impI)
  assume "storage_inv L T m"
  then obtain v where "index2 L (t T) r c m = Inr v"
    using storage_inv_call [OF assms(1) _ assms(2-5)] by blast
  then show "\<exists>v. Tensor_call L T r c m = Inr (v, m)"
    by (simp add: Tensor_call_def)
next
  assume h: "sizeof_ptr L < sizeof_N L \<and> load_ptr L (t T) r m = Inr p \<and> block_at p m = Inr rb
          \<and> length rb = nat (cols T) * sizeof_ptr L"
  have "0 < cols T" using assms(4,5) by simp
  then show "Tensor_call L T r (cols T - 1) m = Inl OutOfBounds"
    using h by (intro last_column_outside [where p = p and rb = rb]) simp_all
qed

theorem element_access_by_element_size_witness:
  "layout_ok lp64_int
   \<and> Tensor_empty lp64_int 2 3 empty_mem = Inr (built_tensor, built_mem)
   \<and> storage_inv lp64_int built_tensor built_mem
   \<and> Tensor_call lp64_int built_tensor 1 2 built_mem = Inr (0, built_mem)
   \<and> layout_ok lp64_long_double
   \<and> load_ptr lp64_long_double 0 0 (first_row_mem lp64_long_double) = Inr 1
   \<and> block_at 1 (first_row_mem lp64_long_double) = Inr (replicate 8 Indet)
   \<and> Tensor_call lp64_long_double \<lparr>rows = 1, cols = 1, t = 0\<rparr> 0 0 (first_row_mem lp64_long_double)
       = Inl OutOfBounds"
proof -
  have l: "layout_ok lp64_int" by code_simp
  have e: "Tensor_empty lp64_int 2 3 empty_mem = Inr (built_tensor, built_mem)" by code_simp
  have s: "storage_inv lp64_int built_tensor built_mem" by code_simp
  have c: "Tensor_call lp64_int built_tensor 1 2 built_mem = Inr (0, built_mem)" by code_simp
  have ld: "layout_ok lp64_long_double" "sizeof_ptr lp64_long_double < sizeof_N lp64_long_double"
    by code_simp+
  have lp: "load_ptr lp64_long_double 0 0 (first_row_mem lp64_long_double) = Inr 1" by code_simp
  have bl: "block_at 1 (first_row_mem lp64_long_double) = Inr (replicate 8 Indet)" by code_simp
  have ln: "length (replicate 8 Indet :: int cell list) = nat 1 * sizeof_ptr lp64_long_double"
    by code_simp
  have "\<exists>v. Tensor_call lp64_int built_tensor 1 2 built_mem = Inr (v, built_mem)"
    using element_access_by_element_size [OF l, where T = built_tensor and r = 1 and c = 2
        and m = built_mem and p = 0 and rb = "[]"] s
    by (simp add: built_tensor_def)
  then have P: "Tensor_call lp64_int built_tensor 1 2 built_mem = Inr (0, built_mem)"
    using c by simp
  have N: "Tensor_call lp64_long_double \<lparr>rows = 1, cols = 1, t = 0\<rparr> 0 0 (first_row_mem lp64_long_double)
       = Inl OutOfBounds"
    using element_access_by_element_size [OF ld(1), where T = "\<lparr>rows = 1, cols = 1, t = 0\<rparr>"
        and r = 0 and c = 0 and m = "first_row_mem lp64_long_double" and p = 1
        and rb = "replicate 8 Indet"] ld(2) lp bl ln
    by simp
  show ?thesis using l e s P ld(1) lp bl N by blast
qed



text \<open>
  Claim C8. \<open>size\<close> and the call operator leave the memory as it was (\<open>size\<close> pushes its
  local array and pops it again; the call operator only reads), so an element read after
  a call of \<open>size\<close> is the element read before it. Neither function can change the members
  \<open>rows\<close>, \<open>cols\<close> and \<open>t\<close>: the Tensor is an argument, not a result.
\<close>

theorem accessors_leave_state_unchanged:
  "snd (Tensor_size T m) = m
   \<and> (case Tensor_call L T r c m of Inl e \<Rightarrow> True | Inr (v, m') \<Rightarrow> m' = m)
   \<and> Tensor_call L T r c (snd (Tensor_size T m)) = Tensor_call L T r c m"
proof -
  have "snd (Tensor_size T m) = m"
    by (simp add: Tensor_size_def Let_def)
  moreover have "case Tensor_call L T r c m of Inl e \<Rightarrow> True | Inr (v, m') \<Rightarrow> m' = m"
    by (simp add: Tensor_call_def split: sum.splits)
  ultimately show ?thesis by simp
qed

theorem accessors_leave_state_unchanged_witness:
  "snd (Tensor_size built_tensor (buffer_mem lp64_int)) = buffer_mem lp64_int
   \<and> Tensor_call lp64_int built_tensor 0 1 (buffer_mem lp64_int) = Inr (2, buffer_mem lp64_int)
   \<and> Tensor_call lp64_int built_tensor 0 1 (snd (Tensor_size built_tensor (buffer_mem lp64_int)))
       = Inr (2, buffer_mem lp64_int)"
proof -
  have c: "Tensor_call lp64_int built_tensor 0 1 (buffer_mem lp64_int) = Inr (2, buffer_mem lp64_int)"
    by code_simp
  show ?thesis
    using accessors_leave_state_unchanged [of built_tensor "buffer_mem lp64_int" lp64_int 0 1] c
    by simp
qed

text \<open>
  Claim C9 says that constructing with \<open>rows = 0\<close> or \<open>cols = 0\<close> succeeds without
  writing an element, and that \<open>Size()\<close> then reports the shape. The first part holds:
  with \<open>x = 0\<close> the constructor allocates the empty outer block and nothing else (whatever
  \<open>y\<close> is), with \<open>y = 0\<close> it allocates \<open>x\<close> empty rows; the members are \<open>(0, y)\<close> and
  \<open>(x, 0)\<close>. The second part fails as in claim C3: what \<open>size\<close> returns cannot be read.
\<close>

theorem empty_shape_construction:
  "Tensor_empty L 0 y m = Inr (\<lparr>rows = 0, cols = y, t = length (heap m)\<rparr>, m\<lparr>heap := heap m @ [Some []]\<rparr>)
   \<and> (0 \<le> x \<and> layout_ok L \<longrightarrow>
       Tensor_empty L x 0 m =
         Inr (\<lparr>rows = x, cols = 0, t = length (heap m)\<rparr>,
              m\<lparr>heap := heap m @ [Some (ptr_array L (map (\<lambda>k. Suc (length (heap m) + k)) [0..<nat x]))]
                              @ replicate (nat x) (Some [])\<rparr>))
   \<and> read_local (fst (Tensor_size U mu)) k (snd (Tensor_size U mu)) = Inl DanglingPointer"
proof (intro conjI impI)
  show "Tensor_empty L 0 y m =
      Inr (\<lparr>rows = 0, cols = y, t = length (heap m)\<rparr>, m\<lparr>heap := heap m @ [Some []]\<rparr>)"
    by (simp add: Tensor_empty_def construct_no_rows)
next
  assume x: "0 \<le> x \<and> layout_ok L"
  then have sp: "0 < sizeof_ptr L" by (simp add: layout_ok_def)
  have "Tensor_empty L x 0 m =
      Inr (\<lparr>rows = x, cols = 0, t = length (heap m)\<rparr>,
           m\<lparr>heap := heap m @ [Some (outer_part L (length (heap m)) x x)] @ row_blocks L (\<lambda>i j. 0) 0 x\<rparr>)"
    using x by (intro Tensor_empty_exact) simp_all
  moreover have "row_part L (\<lambda>j. 0) 0 0 = ([] :: 'a cell list)"
    by (simp add: row_part_def arr_part_def)
  ultimately show "Tensor_empty L x 0 m =
         Inr (\<lparr>rows = x, cols = 0, t = length (heap m)\<rparr>,
              m\<lparr>heap := heap m @ [Some (ptr_array L (map (\<lambda>k. Suc (length (heap m) + k)) [0..<nat x]))]
                              @ replicate (nat x) (Some [])\<rparr>)"
    using x sp by (simp add: outer_part_ptr_array row_blocks_const)
next
  show "read_local (fst (Tensor_size U mu)) k (snd (Tensor_size U mu)) = Inl DanglingPointer"
    by (simp add: Tensor_size_def read_local_def Let_def)
qed

theorem empty_shape_construction_witness:
  "Tensor_empty lp64_int 0 3 empty_mem
     = Inr (\<lparr>rows = 0, cols = 3, t = 0\<rparr>, \<lparr>heap = [Some []], stack = [], frees = []\<rparr>)
   \<and> layout_ok lp64_int
   \<and> Tensor_empty lp64_int 2 0 empty_mem =
       Inr (\<lparr>rows = 2, cols = 0, t = 0\<rparr>,
            \<lparr>heap = [Some (ptr_array lp64_int [1, 2]), Some [], Some []], stack = [], frees = []\<rparr>)
   \<and> read_local (fst (Tensor_size \<lparr>rows = 0, cols = 3, t = 0\<rparr> (\<lparr>heap = [Some []], stack = [], frees = []\<rparr> :: int mem))) 1
       (snd (Tensor_size \<lparr>rows = 0, cols = 3, t = 0\<rparr> (\<lparr>heap = [Some []], stack = [], frees = []\<rparr> :: int mem)))
       = Inl DanglingPointer"
proof -
  have l: "layout_ok lp64_int" by code_simp
  note inst = empty_shape_construction [of lp64_int 3 empty_mem 2 "\<lparr>rows = 0, cols = 3, t = 0\<rparr>"
        "\<lparr>heap = [Some []], stack = [], frees = []\<rparr> :: int mem" 1]
  have a: "Tensor_empty lp64_int 0 3 empty_mem
      = Inr (\<lparr>rows = 0, cols = 3, t = 0\<rparr>, \<lparr>heap = [Some []], stack = [], frees = []\<rparr>)"
    using inst by (simp add: empty_mem_def)
  have "empty_mem\<lparr>heap := heap empty_mem @ [Some (ptr_array lp64_int (map (\<lambda>k. Suc (length (heap empty_mem) + k)) [0..<nat 2]))]
                              @ replicate (nat 2) (Some [])\<rparr>
      = \<lparr>heap = [Some (ptr_array lp64_int [1, 2]), Some [], Some []], stack = [], frees = []\<rparr>"
    by code_simp
  then have b: "Tensor_empty lp64_int 2 0 empty_mem =
       Inr (\<lparr>rows = 2, cols = 0, t = 0\<rparr>,
            \<lparr>heap = [Some (ptr_array lp64_int [1, 2]), Some [], Some []], stack = [], frees = []\<rparr>)"
    using inst l by (simp add: empty_mem_def)
  have c: "read_local (fst (Tensor_size \<lparr>rows = 0, cols = 3, t = 0\<rparr> (\<lparr>heap = [Some []], stack = [], frees = []\<rparr> :: int mem))) 1
       (snd (Tensor_size \<lparr>rows = 0, cols = 3, t = 0\<rparr> (\<lparr>heap = [Some []], stack = [], frees = []\<rparr> :: int mem)))
       = Inl DanglingPointer"
    using inst by simp
  show ?thesis using a l b c by simp
qed

text \<open>
  Claim C10. The copying constructors read the source only on its \<open>x \<times> y\<close> prefix.
  For every layout, two buffers (in any two memories) that are readable and agree on the
  prefix give outcomes that a caller cannot tell apart: the same error, or the same shape
  and the same result of the call operator at every in-bounds position; two vectors that
  agree on the prefix give the very same outcome. When an element is no wider than a
  pointer the outcome is a Tensor, and what is observed of it is the prefix of the source.
  The instance after it compares a buffer with a larger one that has a further row and a
  further column.
\<close>

theorem constructors_read_only_prefix:
  assumes "layout_ok L" "0 \<le> x" "0 \<le> y"
  shows "(buffer_ok L c1 x y m1 \<and> buffer_ok L c2 x y m2
            \<and> prefix_agree (\<lambda>i j. index2 L c1 i j m1) (\<lambda>i j. index2 L c2 i j m2) x y \<longrightarrow>
          observe L x y (Tensor_ptrs L x y c1 m1) = observe L x y (Tensor_ptrs L x y c2 m2))
       \<and> (vector_ok v1 x y \<and> vector_ok v2 x y
            \<and> prefix_agree (\<lambda>i j. vec_at v1 i j) (\<lambda>i j. vec_at v2 i j) x y \<longrightarrow>
          Tensor_vector L x y v1 m = Tensor_vector L x y v2 m)
       \<and> (sizeof_N L \<le> sizeof_ptr L \<and> buffer_ok L c1 x y m1 \<longrightarrow>
          observe L x y (Tensor_ptrs L x y c1 m1) =
            Inr (x, y, map (\<lambda>i. map (\<lambda>j. index2 L c1 i j m1) [0..y - 1]) [0..x - 1]))
       \<and> (sizeof_N L \<le> sizeof_ptr L \<and> vector_ok v1 x y \<longrightarrow>
          observe L x y (Tensor_vector L x y v1 m) =
            Inr (x, y, map (\<lambda>i. map (\<lambda>j. vec_at v1 i j) [0..y - 1]) [0..x - 1]))"
proof (intro conjI impI)
  have sn: "0 < sizeof_N L" using assms(1) by (simp add: layout_ok_def)
  {
    assume h: "buffer_ok L c1 x y m1 \<and> buffer_ok L c2 x y m2
            \<and> prefix_agree (\<lambda>i j. index2 L c1 i j m1) (\<lambda>i j. index2 L c2 i j m2) x y"
    show "observe L x y (Tensor_ptrs L x y c1 m1) = observe L x y (Tensor_ptrs L x y c2 m2)"
    proof (cases "x = 0")
      case True
      then show ?thesis
        by (simp add: Tensor_ptrs_def construct_no_rows observe_no_rows)
    next
      case x0: False
      show ?thesis
      proof (cases "nat y * sizeof_N L \<le> nat y * sizeof_ptr L")
        case True
        have "map (\<lambda>i. map (\<lambda>j. index2 L c1 i j m1) [0..y - 1]) [0..x - 1] =
            map (\<lambda>i. map (\<lambda>j. index2 L c2 i j m2) [0..y - 1]) [0..x - 1]"
        proof (rule grid_cong)
          fix i j assume "0 \<le> i" "i < x" "0 \<le> j" "j < y"
          then show "index2 L c1 i j m1 = index2 L c2 i j m2"
            using prefix_agreeD [of "\<lambda>i j. index2 L c1 i j m1" "\<lambda>i j. index2 L c2 i j m2" x y i j] h
            by simp
        qed
        then show ?thesis
          using observe_Tensor_ptrs [OF assms True, of c1 m1]
            observe_Tensor_ptrs [OF assms True, of c2 m2] h by simp
      next
        case False
        then have w: "0 < y" "sizeof_ptr L < sizeof_N L" by (rule not_fits)+
        have xp: "0 < x" using x0 assms(2) by simp
        have "Tensor_ptrs L x y c1 m1 = Inl OutOfBounds"
          using assms(1) xp w h by (intro Tensor_ptrs_overrun) simp_all
        moreover have "Tensor_ptrs L x y c2 m2 = Inl OutOfBounds"
          using assms(1) xp w h by (intro Tensor_ptrs_overrun) simp_all
        ultimately show ?thesis by (simp add: observe_def)
      qed
    qed
  }
  {
    assume h: "vector_ok v1 x y \<and> vector_ok v2 x y
            \<and> prefix_agree (\<lambda>i j. vec_at v1 i j) (\<lambda>i j. vec_at v2 i j) x y"
    show "Tensor_vector L x y v1 m = Tensor_vector L x y v2 m"
    proof (cases "x = 0")
      case True
      then show ?thesis
        by (simp add: Tensor_vector_def construct_no_rows)
    next
      case x0: False
      show ?thesis
      proof (cases "nat y * sizeof_N L \<le> nat y * sizeof_ptr L")
        case True
        have "row_blocks L (\<lambda>i j. projr (vec_at v1 i j)) y x = row_blocks L (\<lambda>i j. projr (vec_at v2 i j)) y x"
        proof (rule row_blocks_cong [OF sn])
          fix i j assume "0 \<le> i" "i < x" "0 \<le> j" "j < y"
          then have "vec_at v1 i j = vec_at v2 i j"
            using prefix_agreeD [of "\<lambda>i j. vec_at v1 i j" "\<lambda>i j. vec_at v2 i j" x y i j] h by simp
          then show "projr (vec_at v1 i j) = projr (vec_at v2 i j)" by simp
        qed
        then show ?thesis
          using Tensor_vector_exact [OF assms True, of v1 m]
            Tensor_vector_exact [OF assms True, of v2 m] h by simp
      next
        case False
        then have w: "0 < y" "sizeof_ptr L < sizeof_N L" by (rule not_fits)+
        have xp: "0 < x" using x0 assms(2) by simp
        have "Tensor_vector L x y v1 m = Inl OutOfBounds"
          using assms(1) xp w h by (intro Tensor_vector_overrun) simp_all
        moreover have "Tensor_vector L x y v2 m = Inl OutOfBounds"
          using assms(1) xp w h by (intro Tensor_vector_overrun) simp_all
        ultimately show ?thesis by simp
      qed
    qed
  }
  {
    assume h: "sizeof_N L \<le> sizeof_ptr L \<and> buffer_ok L c1 x y m1"
    then have "nat y * sizeof_N L \<le> nat y * sizeof_ptr L" by (simp add: narrow_fits)
    then show "observe L x y (Tensor_ptrs L x y c1 m1) =
            Inr (x, y, map (\<lambda>i. map (\<lambda>j. index2 L c1 i j m1) [0..y - 1]) [0..x - 1])"
      using assms h by (intro observe_Tensor_ptrs) simp_all
  }
  {
    assume h: "sizeof_N L \<le> sizeof_ptr L \<and> vector_ok v1 x y"
    then have "nat y * sizeof_N L \<le> nat y * sizeof_ptr L" by (simp add: narrow_fits)
    then show "observe L x y (Tensor_vector L x y v1 m) =
            Inr (x, y, map (\<lambda>i. map (\<lambda>j. vec_at v1 i j) [0..y - 1]) [0..x - 1])"
      using assms h by (intro observe_Tensor_vector) simp_all
  }
qed

theorem constructors_read_only_prefix_witness:
  "layout_ok lp64_int
   \<and> buffer_ok lp64_int 0 2 3 (buffer_mem lp64_int) \<and> buffer_ok lp64_int 0 2 3 (wide_mem lp64_int)
   \<and> prefix_agree (\<lambda>i j. index2 lp64_int 0 i j (buffer_mem lp64_int))
        (\<lambda>i j. index2 lp64_int 0 i j (wide_mem lp64_int)) 2 3
   \<and> index2 lp64_int 0 2 0 (buffer_mem lp64_int) \<noteq> index2 lp64_int 0 2 0 (wide_mem lp64_int)
   \<and> index2 lp64_int 0 0 3 (buffer_mem lp64_int) \<noteq> index2 lp64_int 0 0 3 (wide_mem lp64_int)
   \<and> observe lp64_int 2 3 (Tensor_ptrs lp64_int 2 3 0 (buffer_mem lp64_int))
       = Inr (2, 3, [[Inr 1, Inr 2, Inr 3], [Inr 4, Inr 5, Inr 6]])
   \<and> observe lp64_int 2 3 (Tensor_ptrs lp64_int 2 3 0 (wide_mem lp64_int))
       = Inr (2, 3, [[Inr 1, Inr 2, Inr 3], [Inr 4, Inr 5, Inr 6]])
   \<and> vector_ok [[7], [8::int]] 2 1 \<and> vector_ok [[7, 9], [8], [5::int]] 2 1
   \<and> prefix_agree (\<lambda>i j. vec_at [[7], [8::int]] i j) (\<lambda>i j. vec_at [[7, 9], [8], [5]] i j) 2 1
   \<and> Tensor_vector lp64_int 2 1 [[7], [8]] empty_mem
       = Tensor_vector lp64_int 2 1 [[7, 9], [8], [5]] empty_mem
   \<and> observe lp64_int 2 1 (Tensor_vector lp64_int 2 1 [[7], [8]] empty_mem)
       = Inr (2, 1, [[Inr 7], [Inr 8]])"
proof -
  have l: "layout_ok lp64_int" "sizeof_N lp64_int \<le> sizeof_ptr lp64_int" by code_simp+
  have b1: "buffer_ok lp64_int 0 2 3 (buffer_mem lp64_int)" by code_simp
  have b2: "buffer_ok lp64_int 0 2 3 (wide_mem lp64_int)" by code_simp
  have ag: "prefix_agree (\<lambda>i j. index2 lp64_int 0 i j (buffer_mem lp64_int))
        (\<lambda>i j. index2 lp64_int 0 i j (wide_mem lp64_int)) 2 3"
    by code_simp
  have d1: "index2 lp64_int 0 2 0 (buffer_mem lp64_int) \<noteq> index2 lp64_int 0 2 0 (wide_mem lp64_int)"
    by code_simp
  have d2: "index2 lp64_int 0 0 3 (buffer_mem lp64_int) \<noteq> index2 lp64_int 0 0 3 (wide_mem lp64_int)"
    by code_simp
  have v1: "vector_ok [[7], [8::int]] 2 1" by code_simp
  have v2: "vector_ok [[7, 9], [8], [5::int]] 2 1" by code_simp
  have va: "prefix_agree (\<lambda>i j. vec_at [[7], [8::int]] i j) (\<lambda>i j. vec_at [[7, 9], [8], [5]] i j) 2 1"
    by code_simp
  have g1: "map (\<lambda>i. map (\<lambda>j. index2 lp64_int 0 i j (buffer_mem lp64_int)) [0..3 - 1]) [0..2 - 1]
      = [[Inr 1, Inr 2, Inr 3], [Inr 4, Inr 5, Inr 6]]"
    by code_simp
  have g2: "map (\<lambda>i. map (\<lambda>j. vec_at [[7], [8::int]] i j) [0..1 - 1]) [0..2 - 1] = [[Inr 7], [Inr 8]]"
    by code_simp
  note inst = constructors_read_only_prefix [OF l(1), where x = 2 and ?c1.0 = 0 and ?c2.0 = 0
      and ?m1.0 = "buffer_mem lp64_int" and ?m2.0 = "wide_mem lp64_int" and m = empty_mem]
  have E: "observe lp64_int 2 3 (Tensor_ptrs lp64_int 2 3 0 (buffer_mem lp64_int))
        = observe lp64_int 2 3 (Tensor_ptrs lp64_int 2 3 0 (wide_mem lp64_int))"
    using inst [where y = 3 and ?v1.0 = "[]" and ?v2.0 = "[]"] b1 b2 ag by simp
  have G: "observe lp64_int 2 3 (Tensor_ptrs lp64_int 2 3 0 (buffer_mem lp64_int))
        = Inr (2, 3, map (\<lambda>i. map (\<lambda>j. index2 lp64_int 0 i j (buffer_mem lp64_int)) [0..3 - 1]) [0..2 - 1])"
    using inst [where y = 3 and ?v1.0 = "[]" and ?v2.0 = "[]"] l(2) b1 by simp
  have P: "observe lp64_int 2 3 (Tensor_ptrs lp64_int 2 3 0 (buffer_mem lp64_int))
        = Inr (2, 3, [[Inr 1, Inr 2, Inr 3], [Inr 4, Inr 5, Inr 6]])
      \<and> observe lp64_int 2 3 (Tensor_ptrs lp64_int 2 3 0 (wide_mem lp64_int))
        = Inr (2, 3, [[Inr 1, Inr 2, Inr 3], [Inr 4, Inr 5, Inr 6]])"
    using E G g1 by metis
  have V1: "Tensor_vector lp64_int 2 1 [[7], [8]] empty_mem
        = Tensor_vector lp64_int 2 1 [[7, 9], [8], [5]] empty_mem"
    using inst [where y = 1 and ?v1.0 = "[[7], [8]]" and ?v2.0 = "[[7, 9], [8], [5]]"] v1 v2 va
    by simp
  have V2: "observe lp64_int 2 1 (Tensor_vector lp64_int 2 1 [[7], [8]] empty_mem)
        = Inr (2, 1, map (\<lambda>i. map (\<lambda>j. vec_at [[7], [8::int]] i j) [0..1 - 1]) [0..2 - 1])"
    using inst [where y = 1 and ?v1.0 = "[[7], [8]]" and ?v2.0 = "[[7, 9], [8], [5]]"] l(2) v1
    by simp
  have V: "Tensor_vector lp64_int 2 1 [[7], [8]] empty_mem
        = Tensor_vector lp64_int 2 1 [[7, 9], [8], [5]] empty_mem
      \<and> observe lp64_int 2 1 (Tensor_vector lp64_int 2 1 [[7], [8]] empty_mem)
        = Inr (2, 1, [[Inr 7], [Inr 8]])"
    using V1 V2 g2 by metis
  show ?thesis using l(1) b1 b2 ag d1 d2 v1 v2 va P V by blast
qed

end
